theory Spec2Isabelle
  imports Complex_Main "HOL-Library.Word" "HOL-Library.Signed_Division"
begin

unbundle bit_operations_syntax

section \<open>The flash-write engine of the flasher stub (stub\_write\_flash.c)\<close>

text \<open>
  Every 32-bit C integer is a \<open>32 word\<close>: \<open>+\<close>, \<open>-\<close> and \<open>*\<close> wrap. The fields and
  locals the source declares \<open>int\<close> are read through \<open>sint\<close> where the source compares
  or takes a remainder, the \<open>uint32_t\<close> ones through the unsigned order of words.
\<close>

type_synonym uint32_t = "32 word"
type_synonym c_int = "32 word"

subsection \<open>Constants of the absent headers\<close>

text \<open>Modelled from the spec: the enumeration \<open>esp_command_error\<close> of stub\_flasher.h is
  not in the source tree; these are the codes this file returns or latches, named as the
  source names them (spec section 7 lists them).\<close>

datatype esp_command_error =
    ESP_OK
  | ESP_NOT_IN_FLASH_MODE
  | ESP_NOT_ENOUGH_DATA
  | ESP_TOO_MUCH_DATA
  | ESP_FAILED_SPI_UNLOCK
  | ESP_FAILED_SPI_OP
  | ESP_INFLATE_ERROR

text \<open>Modelled from the spec: the macros \<open>FLASH_SECTOR_SIZE\<close> and \<open>SECTORS_PER_BLOCK\<close> of
  stub\_flasher.h are not in the source tree; the spec fixes a 4 KiB sector and a 64 KiB
  block, that is 16 sectors per block.\<close>

definition FLASH_SECTOR_SIZE :: uint32_t where
  "FLASH_SECTOR_SIZE = 4096"

definition SECTORS_PER_BLOCK :: uint32_t where
  "SECTORS_PER_BLOCK = 16"

text \<open>Modelled from the spec: the status codes and flags of miniz.h are not in the source
  tree. The inflate engine reports completion as \<open>TINFL_STATUS_DONE\<close>, an unrecoverable
  error as a status below it, and "needs more input" or "has more output" as a status
  above it; the source relies on this order only.\<close>

definition TINFL_STATUS_DONE :: int where
  "TINFL_STATUS_DONE = 0"

definition TINFL_STATUS_NEEDS_MORE_INPUT :: int where
  "TINFL_STATUS_NEEDS_MORE_INPUT = 1"

definition TINFL_FLAG_PARSE_ZLIB_HEADER :: uint32_t where
  "TINFL_FLAG_PARSE_ZLIB_HEADER = 1"

definition TINFL_FLAG_HAS_MORE_INPUT :: uint32_t where
  "TINFL_FLAG_HAS_MORE_INPUT = 2"

text \<open>\<open>SpiFlashOpResult\<close> of the ROM interface: 0 is success.\<close>

definition SPI_FLASH_RESULT_OK :: uint32_t where
  "SPI_FLASH_RESULT_OK = 0"

definition SPI_FLASH_RESULT_ERR :: uint32_t where
  "SPI_FLASH_RESULT_ERR = 1"

definition STATUS_QIE_BIT :: uint32_t where
  "STATUS_QIE_BIT = push_bit 9 1"

text \<open>\<open>sizeof(out_buf)\<close> in \<open>handle_flash_deflated_data\<close>.\<close>

definition OUT_BUF_SIZE :: uint32_t where
  "OUT_BUF_SIZE = 32768"

subsection \<open>The session record \<open>fs\<close>\<close>

text \<open>
  The fields of the static struct \<open>fs\<close>, in the source's order. The inflator context is
  reduced to its state word, which \<open>tinfl_init\<close> sets to 0. \<open>next_out\<close> is the static
  local of \<open>handle_flash_deflated_data\<close>, kept as the offset \<open>next_out - out_buf\<close>; it
  lives as long as \<open>fs\<close> does, so it is carried in the same record. The bytes of the
  payload are not modelled, only their counts.
\<close>

record flash_state =
  in_flash_mode :: bool
  next_write :: uint32_t
  next_erase_sector :: c_int
  remaining :: uint32_t
  remaining_erase_sector :: c_int
  last_error :: esp_command_error
  inflator :: nat
  remaining_compressed :: uint32_t
  next_out :: uint32_t

text \<open>The state at firmware start: zeroed statics, \<open>next_out = out_buf\<close>.\<close>

definition fs_init :: flash_state where
  "fs_init = \<lparr> in_flash_mode = False, next_write = 0, next_erase_sector = 0,
      remaining = 0, remaining_erase_sector = 0, last_error = ESP_OK,
      inflator = 0, remaining_compressed = 0, next_out = 0 \<rparr>"

definition is_in_flash_mode :: "flash_state \<Rightarrow> bool" where
  "is_in_flash_mode s = in_flash_mode s"

definition get_flash_error :: "flash_state \<Rightarrow> esp_command_error" where
  "get_flash_error s = last_error s"

subsection \<open>The device and the external routines\<close>

text \<open>
  The flash chip, the ROM routines and the inflate engine are outside this file. Their
  answers are recorded, in the order the program asks for them; the commands the program
  issues are appended to \<open>trace\<close>. A run that asks for more answers than are recorded has
  no result (\<open>None\<close>): in particular a spin on a device that never reports ready has no
  result for any record of its answers.

  The answers the engine branches on are the write-in-progress bit read by
  \<open>spiflash_is_ready\<close>, the results of the ROM status routines, of the program primitives
  and of \<open>tinfl_decompress\<close>. The handshakes of the SPI host itself (\<open>spi_wait_ready\<close> and
  the waits for \<open>SPI_CMD_REG\<close> to clear after each command) belong to the primitives and
  are taken to complete.
\<close>

datatype chip = ESP8266 | ESP32 | ESP32S2_OR_LATER

datatype erase_command = SPI_FLASH_SE | SPI_FLASH_BE

datatype hw_event =
    Write_enable
  | Erase erase_command uint32_t
  | Write_status uint32_t
  | Program uint32_t uint32_t
  | Program_encrypted uint32_t uint32_t
  | Encrypt_enable
  | Encrypt_disable
  | Inflate uint32_t uint32_t uint32_t

record hw =
  target :: chip
  ready_polls :: "bool list"
  program_results :: "uint32_t list"
  inflate_results :: "(int \<times> uint32_t \<times> uint32_t \<times> nat) list"
  status_high :: "uint32_t option"
  write_status_ok :: bool
  rom_unlock :: uint32_t
  trace :: "hw_event list"

text \<open>\<open>spiflash_is_ready\<close>: one read of the status register; true when the
  write-in-progress bit is clear.\<close>

definition spiflash_is_ready :: "hw \<Rightarrow> (bool \<times> hw) option" where
  "spiflash_is_ready h =
     (case ready_polls h of
        [] \<Rightarrow> None
      | b # bs \<Rightarrow> Some (b, h\<lparr>ready_polls := bs\<rparr>))"

text \<open>The loop \<open>while(!spiflash_is_ready()) { }\<close>, on the recorded answers.\<close>

fun spin_ready :: "bool list \<Rightarrow> bool list option" where
  "spin_ready [] = None"
| "spin_ready (b # bs) = (if b then Some bs else spin_ready bs)"

definition wait_spiflash_ready :: "hw \<Rightarrow> hw option" where
  "wait_spiflash_ready h =
     (case spin_ready (ready_polls h) of
        None \<Rightarrow> None
      | Some bs \<Rightarrow> Some (h\<lparr>ready_polls := bs\<rparr>))"

definition spi_write_enable :: "hw \<Rightarrow> hw option" where
  "spi_write_enable h =
     (case wait_spiflash_ready h of
        None \<Rightarrow> None
      | Some h1 \<Rightarrow> Some (h1\<lparr>trace := trace h1 @ [Write_enable]\<rparr>))"

text \<open>\<open>SPIUnlock\<close>: the stub's own version on ESP32 and later, the ROM's on ESP8266
  (its result is then an answer of the device).\<close>

definition SPIUnlock :: "hw \<Rightarrow> (uint32_t \<times> hw) option" where
  "SPIUnlock h =
     (if target h = ESP8266 then Some (rom_unlock h, h)
      else case status_high h of
          None \<Rightarrow> Some (SPI_FLASH_RESULT_ERR, h)
        | Some status0 \<Rightarrow>
            (let status = status0 AND STATUS_QIE_BIT in
             case spi_write_enable h of
               None \<Rightarrow> None
             | Some h1 \<Rightarrow>
                 (let h2 = h1\<lparr>trace := trace h1 @ [Write_status status]\<rparr> in
                  if \<not> write_status_ok h then Some (SPI_FLASH_RESULT_ERR, h2)
                  else Some (SPI_FLASH_RESULT_OK, h2))))"

text \<open>The program primitives \<open>SPIWrite\<close> and the encrypted write: nonzero is failure.\<close>

definition SPIWrite :: "uint32_t \<Rightarrow> uint32_t \<Rightarrow> hw \<Rightarrow> (uint32_t \<times> hw) option" where
  "SPIWrite addr len h =
     (case program_results h of
        [] \<Rightarrow> None
      | r # rs \<Rightarrow> Some (r, h\<lparr>program_results := rs, trace := trace h @ [Program addr len]\<rparr>))"

definition SPI_Encrypt_Write :: "uint32_t \<Rightarrow> uint32_t \<Rightarrow> hw \<Rightarrow> (uint32_t \<times> hw) option" where
  "SPI_Encrypt_Write addr len h =
     (case program_results h of
        [] \<Rightarrow> None
      | r # rs \<Rightarrow>
          Some (r, h\<lparr>program_results := rs, trace := trace h @ [Program_encrypted addr len]\<rparr>))"

text \<open>\<open>tinfl_decompress\<close>: the engine answers with its status, the input bytes it consumed,
  the output bytes it produced and its new state.\<close>

definition tinfl_decompress ::
  "uint32_t \<Rightarrow> uint32_t \<Rightarrow> uint32_t \<Rightarrow> hw \<Rightarrow> ((int \<times> uint32_t \<times> uint32_t \<times> nat) \<times> hw) option" where
  "tinfl_decompress in_bytes out_bytes flags h =
     (case inflate_results h of
        [] \<Rightarrow> None
      | r # rs \<Rightarrow>
          Some (r, h\<lparr>inflate_results := rs,
                     trace := trace h @ [Inflate in_bytes out_bytes flags]\<rparr>))"

subsection \<open>Begin\<close>

definition handle_flash_begin ::
  "uint32_t \<Rightarrow> uint32_t \<Rightarrow> hw \<Rightarrow> flash_state \<Rightarrow> (esp_command_error \<times> hw \<times> flash_state) option" where
  "handle_flash_begin total_size offset h s =
     (let s1 = s\<lparr> in_flash_mode := True,
                  next_write := offset,
                  next_erase_sector := offset div FLASH_SECTOR_SIZE,
                  remaining := total_size,
                  remaining_erase_sector :=
                    ((offset mod FLASH_SECTOR_SIZE) + total_size + FLASH_SECTOR_SIZE - 1)
                      div FLASH_SECTOR_SIZE,
                  last_error := ESP_OK \<rparr> in
      case SPIUnlock h of
        None \<Rightarrow> None
      | Some (r, h1) \<Rightarrow>
          if r \<noteq> 0 then Some (ESP_FAILED_SPI_UNLOCK, h1, s1)
          else Some (ESP_OK, h1, s1))"

definition handle_flash_deflated_begin ::
  "uint32_t \<Rightarrow> uint32_t \<Rightarrow> uint32_t \<Rightarrow> hw \<Rightarrow> flash_state
     \<Rightarrow> (esp_command_error \<times> hw \<times> flash_state) option" where
  "handle_flash_deflated_begin uncompressed_size compressed_size offset h s =
     (case handle_flash_begin uncompressed_size offset h s of
        None \<Rightarrow> None
      | Some (err, h1, s1) \<Rightarrow>
          Some (err, h1, s1\<lparr>inflator := 0, remaining_compressed := compressed_size\<rparr>))"

subsection \<open>The erase-ahead scheduler\<close>

text \<open>\<open>remaining_erase_sector\<close> and \<open>next_erase_sector\<close> are \<open>int\<close>, \<open>SECTORS_PER_BLOCK\<close>
  is an \<open>int\<close> constant: the comparison and the remainder are signed, the remainder C's
  truncating one (\<open>smod\<close>). The counters are updated through the \<open>uint32_t\<close>
  \<open>sectors_to_erase\<close>, and the address is the product cut to 32 bits.\<close>

definition start_next_erase :: "hw \<Rightarrow> flash_state \<Rightarrow> (hw \<times> flash_state) option" where
  "start_next_erase h s =
     (if remaining_erase_sector s = 0 then Some (h, s)
      else case spiflash_is_ready h of
          None \<Rightarrow> None
        | Some (ready, h1) \<Rightarrow>
            if \<not> ready then Some (h1, s)
            else case spi_write_enable h1 of
                None \<Rightarrow> None
              | Some h2 \<Rightarrow>
                  (let block = (sint SECTORS_PER_BLOCK \<le> sint (remaining_erase_sector s)
                                \<and> sint (next_erase_sector s) smod sint SECTORS_PER_BLOCK = 0);
                       command = (if block then SPI_FLASH_BE else SPI_FLASH_SE);
                       sectors_to_erase = (if block then SECTORS_PER_BLOCK else 1);
                       addr = next_erase_sector s * FLASH_SECTOR_SIZE;
                       h3 = h2\<lparr>trace := trace h2 @ [Erase command (addr AND 0xffffff)]\<rparr>
                   in Some (h3, s\<lparr> remaining_erase_sector :=
                                      remaining_erase_sector s - sectors_to_erase,
                                    next_erase_sector :=
                                      next_erase_sector s + sectors_to_erase \<rparr>)))"

text \<open>Every call that has work to do asks the device once, at least.\<close>

lemma spin_ready_length: "spin_ready bs = Some bs' \<Longrightarrow> length bs' < length bs"
  by (induction bs) (auto split: if_splits)

lemma start_next_erase_polls:
  assumes "start_next_erase h s = Some (h', s')" and "remaining_erase_sector s \<noteq> 0"
  shows "length (ready_polls h') < length (ready_polls h)"
  using assms
  by (auto simp: start_next_erase_def spiflash_is_ready_def spi_write_enable_def
        wait_spiflash_ready_def Let_def
      split: list.splits option.splits if_splits dest!: spin_ready_length)

subsection \<open>Plain and encrypted data\<close>

text \<open>The loop
  \<open>while(fs.remaining_erase_sector > 0 && fs.next_erase_sector <= last_sector) start_next_erase();\<close>
  of both data operations.\<close>

function erase_loop :: "c_int \<Rightarrow> hw \<Rightarrow> flash_state \<Rightarrow> (hw \<times> flash_state) option" where
  "erase_loop last_sector h s =
     (if 0 < sint (remaining_erase_sector s)
         \<and> sint (next_erase_sector s) \<le> sint last_sector
      then case start_next_erase h s of
          None \<Rightarrow> None
        | Some (h1, s1) \<Rightarrow> erase_loop last_sector h1 s1
      else Some (h, s))"
  by pat_completeness auto
termination
proof (relation "measure (\<lambda>(last_sector, h, s). length (ready_polls h))")
  show "wf (measure (\<lambda>(last_sector, h, s). length (ready_polls h)))" by simp
next
  fix last_sector :: c_int and h s x2 h1 s1
  assume c: "0 < sint (remaining_erase_sector s)
      \<and> sint (next_erase_sector s) \<le> sint last_sector"
    and e: "start_next_erase h s = Some x2" and x: "(h1, s1) = x2"
  from c have "remaining_erase_sector s \<noteq> 0" by auto
  with e x have "length (ready_polls h1) < length (ready_polls h)"
    by (auto dest: start_next_erase_polls)
  then show "((last_sector, h1, s1), (last_sector, h, s))
      \<in> measure (\<lambda>(last_sector, h, s). length (ready_polls h))"
    by simp
qed

declare erase_loop.simps [simp del]

definition handle_flash_data :: "uint32_t \<Rightarrow> hw \<Rightarrow> flash_state \<Rightarrow> (hw \<times> flash_state) option" where
  "handle_flash_data len0 h s =
     (let len = (if remaining s < len0 then remaining s else len0) in
      if len = 0 then Some (h, s)
      else
        (let last_sector = (next_write s + len) div FLASH_SECTOR_SIZE in
         case erase_loop last_sector h s of
           None \<Rightarrow> None
         | Some (h1, s1) \<Rightarrow>
             (case wait_spiflash_ready h1 of
                None \<Rightarrow> None
              | Some h2 \<Rightarrow>
                  (case SPIWrite (next_write s1) len h2 of
                     None \<Rightarrow> None
                   | Some (res, h3) \<Rightarrow>
                       (let s2 = (if res \<noteq> 0 then s1\<lparr>last_error := ESP_FAILED_SPI_OP\<rparr> else s1)
                        in Some (h3, s2\<lparr> next_write := next_write s2 + len,
                                         remaining := remaining s2 - len \<rparr>))))))"

text \<open>Compiled for every target but ESP8266. On ESP32-S2 and later the encryption latch is
  set on entry and released at the end of the function; ESP32 calls
  \<open>esp_rom_spiflash_write_encrypted\<close>, the later chips \<open>SPI_Encrypt_Write\<close>: both are
  the encrypted program primitive here.\<close>

definition handle_flash_encrypt_data ::
  "uint32_t \<Rightarrow> hw \<Rightarrow> flash_state \<Rightarrow> (hw \<times> flash_state) option" where
  "handle_flash_encrypt_data len0 h0 s =
     (let h = (if target h0 = ESP32S2_OR_LATER then h0\<lparr>trace := trace h0 @ [Encrypt_enable]\<rparr>
               else h0);
          len = (if remaining s < len0 then remaining s else len0) in
      if len = 0 then Some (h, s)
      else
        (let last_sector = (next_write s + len) div FLASH_SECTOR_SIZE in
         case erase_loop last_sector h s of
           None \<Rightarrow> None
         | Some (h1, s1) \<Rightarrow>
             (case wait_spiflash_ready h1 of
                None \<Rightarrow> None
              | Some h2 \<Rightarrow>
                  (case SPI_Encrypt_Write (next_write s1) len h2 of
                     None \<Rightarrow> None
                   | Some (res, h3) \<Rightarrow>
                       (let s2 = (if res \<noteq> 0 then s1\<lparr>last_error := ESP_FAILED_SPI_OP\<rparr> else s1);
                            s3 = s2\<lparr> next_write := next_write s2 + len,
                                     remaining := remaining s2 - len \<rparr>;
                            h4 = (if target h3 = ESP32S2_OR_LATER
                                  then h3\<lparr>trace := trace h3 @ [Encrypt_disable]\<rparr> else h3)
                        in Some (h4, s3))))))"

subsection \<open>Deflated data\<close>

text \<open>One turn of the loop of \<open>handle_flash_deflated_data\<close>: from the input still to
  read, to the input left, the engine's status and the new state.\<close>

definition deflate_step ::
  "uint32_t \<Rightarrow> hw \<Rightarrow> flash_state \<Rightarrow> (uint32_t \<times> int \<times> hw \<times> flash_state) option" where
  "deflate_step len h s =
     (let in_bytes = len;
          out_bytes = OUT_BUF_SIZE - next_out s;
          flags = (if len < remaining_compressed s
                   then TINFL_FLAG_PARSE_ZLIB_HEADER OR TINFL_FLAG_HAS_MORE_INPUT
                   else TINFL_FLAG_PARSE_ZLIB_HEADER) in
      case start_next_erase h s of
        None \<Rightarrow> None
      | Some (h1, s1) \<Rightarrow>
          (case tinfl_decompress in_bytes out_bytes flags h1 of
             None \<Rightarrow> None
           | Some ((status, in_used, out_made, infl), h2) \<Rightarrow>
               (let s2 = s1\<lparr> inflator := infl,
                             remaining_compressed := remaining_compressed s1 - in_used,
                             next_out := next_out s1 + out_made \<rparr>;
                    len' = len - in_used;
                    bytes_in_out_buf = next_out s2 in
                if status \<le> TINFL_STATUS_DONE \<or> bytes_in_out_buf = OUT_BUF_SIZE
                then (case handle_flash_data bytes_in_out_buf h2 s2 of
                        None \<Rightarrow> None
                      | Some (h3, s3) \<Rightarrow> Some (len', status, h3, s3\<lparr>next_out := 0\<rparr>))
                else Some (len', status, h2, s2))))"

text \<open>Only \<open>tinfl_decompress\<close> takes an answer of the inflate engine.\<close>

lemma start_next_erase_inflate_results:
  "start_next_erase h s = Some (h', s') \<Longrightarrow> inflate_results h' = inflate_results h"
  by (auto simp: start_next_erase_def spiflash_is_ready_def spi_write_enable_def
        wait_spiflash_ready_def Let_def
      split: list.splits option.splits if_splits)

lemma erase_loop_inflate_results:
  "erase_loop last_sector h s = Some (h', s') \<Longrightarrow> inflate_results h' = inflate_results h"
proof (induction last_sector h s rule: erase_loop.induct)
  case (1 last_sector h s)
  show ?case
  proof (cases "0 < sint (remaining_erase_sector s)
      \<and> sint (next_erase_sector s) \<le> sint last_sector")
    case True
    with "1.prems" obtain h1 s1 where a: "start_next_erase h s = Some (h1, s1)"
      and b: "erase_loop last_sector h1 s1 = Some (h', s')"
      by (subst (asm) erase_loop.simps) (auto split: option.splits)
    from "1.IH" [OF True a refl b] start_next_erase_inflate_results [OF a]
    show ?thesis by simp
  next
    case False
    with "1.prems" show ?thesis
      by (subst (asm) erase_loop.simps) auto
  qed
qed

lemma handle_flash_data_inflate_results:
  "handle_flash_data len h s = Some (h', s') \<Longrightarrow> inflate_results h' = inflate_results h"
  by (auto simp: handle_flash_data_def Let_def wait_spiflash_ready_def SPIWrite_def
      split: option.splits if_splits list.splits dest!: erase_loop_inflate_results)

lemma deflate_step_inflate_results:
  "deflate_step len h s = Some (len', status, h', s')
    \<Longrightarrow> length (inflate_results h') < length (inflate_results h)"
  by (auto simp: deflate_step_def Let_def tinfl_decompress_def
      split: option.splits if_splits list.splits
      dest!: start_next_erase_inflate_results handle_flash_data_inflate_results)

text \<open>The loop
  \<open>while(length > 0 && fs.remaining > 0 && status > TINFL_STATUS_DONE)\<close>.\<close>

function deflate_loop ::
  "uint32_t \<Rightarrow> int \<Rightarrow> hw \<Rightarrow> flash_state \<Rightarrow> (int \<times> hw \<times> flash_state) option" where
  "deflate_loop len status h s =
     (if 0 < len \<and> 0 < remaining s \<and> TINFL_STATUS_DONE < status
      then case deflate_step len h s of
          None \<Rightarrow> None
        | Some (len', status', h', s') \<Rightarrow> deflate_loop len' status' h' s'
      else Some (status, h, s))"
  by pat_completeness auto
termination
  by (relation "measure (\<lambda>(len, status, h, s). length (inflate_results h))")
     (auto dest: deflate_step_inflate_results)

declare deflate_loop.simps [simp del]

definition handle_flash_deflated_data ::
  "uint32_t \<Rightarrow> hw \<Rightarrow> flash_state \<Rightarrow> (hw \<times> flash_state) option" where
  "handle_flash_deflated_data len h s =
     (case deflate_loop len TINFL_STATUS_NEEDS_MORE_INPUT h s of
        None \<Rightarrow> None
      | Some (status, h1, s1) \<Rightarrow>
          (let s2 = (if status < TINFL_STATUS_DONE
                     then s1\<lparr>last_error := ESP_INFLATE_ERROR\<rparr> else s1);
               s3 = (if status = TINFL_STATUS_DONE \<and> 0 < remaining s2
                     then s2\<lparr>last_error := ESP_NOT_ENOUGH_DATA\<rparr> else s2);
               s4 = (if status \<noteq> TINFL_STATUS_DONE \<and> remaining s3 = 0
                     then s3\<lparr>last_error := ESP_TOO_MUCH_DATA\<rparr> else s3)
           in Some (h1, s4)))"

subsection \<open>End\<close>

definition handle_flash_end :: "flash_state \<Rightarrow> esp_command_error \<times> flash_state" where
  "handle_flash_end s =
     (if \<not> in_flash_mode s then (ESP_NOT_IN_FLASH_MODE, s)
      else if 0 < remaining s then (ESP_NOT_ENOUGH_DATA, s)
      else (last_error s, s\<lparr>in_flash_mode := False\<rparr>))"

subsection \<open>The data phase of a session\<close>

text \<open>The command dispatcher is outside this file. Between a begin and an end it calls the
  three data operations, each with the length of the packet it received.\<close>

datatype data_op =
    Flash_data uint32_t
  | Flash_encrypt_data uint32_t
  | Flash_deflated_data uint32_t

fun data_call :: "data_op \<Rightarrow> hw \<Rightarrow> flash_state \<Rightarrow> (hw \<times> flash_state) option" where
  "data_call (Flash_data len) h s = handle_flash_data len h s"
| "data_call (Flash_encrypt_data len) h s = handle_flash_encrypt_data len h s"
| "data_call (Flash_deflated_data len) h s = handle_flash_deflated_data len h s"

fun data_phase :: "data_op list \<Rightarrow> hw \<Rightarrow> flash_state \<Rightarrow> (hw \<times> flash_state) option" where
  "data_phase [] h s = Some (h, s)"
| "data_phase (c # cs) h s =
     (case data_call c h s of
        None \<Rightarrow> None
      | Some (h1, s1) \<Rightarrow> data_phase cs h1 s1)"

subsection \<open>Values for worked examples\<close>

text \<open>An ESP32 whose status register reads 0 and accepts the write; the answers of the
  ready poll, of the program primitive and of the inflate engine are given.\<close>

definition example_device ::
  "bool list \<Rightarrow> uint32_t list \<Rightarrow> (int \<times> uint32_t \<times> uint32_t \<times> nat) list \<Rightarrow> hw" where
  "example_device polls results answers =
     \<lparr> target = ESP32, ready_polls = polls, program_results = results,
       inflate_results = answers, status_high = Some 0, write_status_ok = True,
       rom_unlock = 0, trace = [] \<rparr>"

text \<open>The session records after \<open>handle_flash_begin 100 0\<close> and
  \<open>handle_flash_begin 10 0\<close> from the start-up state, and the one after
  \<open>handle_flash_deflated_begin 4 10 0\<close>.\<close>

definition session_10 :: flash_state where
  "session_10 = fs_init\<lparr>in_flash_mode := True, remaining := 10, remaining_erase_sector := 1\<rparr>"

definition session_100 :: flash_state where
  "session_100 = fs_init\<lparr>in_flash_mode := True, remaining := 100, remaining_erase_sector := 1\<rparr>"

definition session_4 :: flash_state where
  "session_4 = fs_init\<lparr>in_flash_mode := True, remaining := 4, remaining_erase_sector := 1,
     remaining_compressed := 10\<rparr>"

text \<open>The commands the scheduler issues: a write-enable and an erase.\<close>

fun erase_event :: "hw_event \<Rightarrow> bool" where
  "erase_event Write_enable = True"
| "erase_event (Erase c a) = True"
| "erase_event e = False"

text \<open>The equations that run the model on given values.\<close>

lemmas run_defs =
  fs_init_def example_device_def session_100_def handle_flash_begin_def
  handle_flash_deflated_begin_def SPIUnlock_def
  handle_flash_data_def handle_flash_encrypt_data_def handle_flash_deflated_data_def
  deflate_loop.simps deflate_step_def tinfl_decompress_def erase_loop.simps
  start_next_erase_def spiflash_is_ready_def spi_write_enable_def wait_spiflash_ready_def
  SPIWrite_def SPI_Encrypt_Write_def SECTORS_PER_BLOCK_def FLASH_SECTOR_SIZE_def
  STATUS_QIE_BIT_def SPI_FLASH_RESULT_OK_def SPI_FLASH_RESULT_ERR_def OUT_BUF_SIZE_def
  TINFL_STATUS_DONE_def TINFL_STATUS_NEEDS_MORE_INPUT_def TINFL_FLAG_PARSE_ZLIB_HEADER_def
  TINFL_FLAG_HAS_MORE_INPUT_def Let_def

section \<open>Invariants of a session\<close>

text \<open>
  The 32-bit sums of \<open>handle_flash_begin\<close> do not wrap when the region ends inside the
  address space and the rounding term fits: \<open>no_wrap\<close>. The erase counters of a session
  begun at \<open>ofs\<close> for \<open>tot\<close> bytes then always add up to \<open>erase_total ofs tot\<close>, the
  number of sectors from the first sector of the region to its end.
\<close>

definition erase_inv :: "int \<Rightarrow> flash_state \<Rightarrow> bool" where
  "erase_inv E s \<longleftrightarrow>
     0 \<le> sint (remaining_erase_sector s) \<and> 0 \<le> sint (next_erase_sector s) \<and>
     sint (next_erase_sector s) + sint (remaining_erase_sector s) = E"

definition no_wrap :: "nat \<Rightarrow> nat \<Rightarrow> bool" where
  "no_wrap ofs tot \<longleftrightarrow> ofs + tot < 2 ^ 32 \<and> ofs mod 4096 + tot + 4095 < 2 ^ 32"

definition erase_total :: "nat \<Rightarrow> nat \<Rightarrow> nat" where
  "erase_total ofs tot = ofs div 4096 + (ofs mod 4096 + tot + 4095) div 4096"

definition sess_inv :: "nat \<Rightarrow> nat \<Rightarrow> flash_state \<Rightarrow> bool" where
  "sess_inv ofs tot s \<longleftrightarrow>
     unat (next_write s) + unat (remaining s) = ofs + tot \<and>
     erase_inv (int (erase_total ofs tot)) s"

subsection \<open>Signed reading of small words\<close>

lemma sint_sub_small:
  fixes r k :: "32 word"
  assumes "0 \<le> sint k" "sint k \<le> sint r"
  shows "sint (r - k) = sint r - sint k"
proof -
  have "sint r < 2 ^ 31" using sint_lt [of r] by simp
  with assms have "- (2 ^ 31) \<le> sint r - sint k" "sint r - sint k < 2 ^ 31" by auto
  then show ?thesis
    by (simp add: sint_word_ariths signed_take_bit_int_eq_self)
qed

lemma sint_add_small:
  fixes r k :: "32 word"
  assumes "0 \<le> sint k" "0 \<le> sint r" "sint r + sint k < 2 ^ 31"
  shows "sint (r + k) = sint r + sint k"
proof -
  from assms have "- (2 ^ 31) \<le> sint r + sint k" by auto
  with assms show ?thesis
    by (simp add: sint_word_ariths signed_take_bit_int_eq_self)
qed

lemma sint_of_small:
  fixes w :: "32 word"
  assumes "unat w < 2 ^ 31"
  shows "sint w = int (unat w)"
proof -
  from assms have "uint w < 2 ^ 31" by transfer simp
  moreover have "(0::int) \<le> uint w" by simp
  then have "- (2 ^ 31) \<le> uint w" by (rule order_trans [rotated]) simp
  ultimately have "signed_take_bit 31 (uint w) = uint w"
    by (intro signed_take_bit_int_eq_self)
  then show ?thesis by (simp add: sint_uint)
qed

subsection \<open>What one scheduler call does to the session\<close>

lemma start_next_erase_cases:
  assumes "start_next_erase h s = Some (h', s')"
  shows "s' = s \<or>
     (remaining_erase_sector s \<noteq> 0 \<and>
      (\<exists>k. (k = 1 \<and> \<not> (16 \<le> sint (remaining_erase_sector s) \<and> sint (next_erase_sector s) smod 16 = 0)
            \<or> k = 16 \<and> 16 \<le> sint (remaining_erase_sector s)) \<and>
        s' = s\<lparr> remaining_erase_sector := remaining_erase_sector s - k,
                next_erase_sector := next_erase_sector s + k \<rparr>))"
  using assms
  by (auto simp: start_next_erase_def Let_def SECTORS_PER_BLOCK_def
      split: option.splits if_splits)


lemma start_next_erase_frame:
  assumes "start_next_erase h s = Some (h', s')"
  shows "\<exists>r n. s' = s\<lparr>remaining_erase_sector := r, next_erase_sector := n\<rparr>"
proof -
  from start_next_erase_cases [OF assms]
  consider "s' = s"
    | k where "s' = s\<lparr> remaining_erase_sector := remaining_erase_sector s - k,
                next_erase_sector := next_erase_sector s + k \<rparr>"
    by blast
  then show ?thesis
  proof cases
    case 1
    then have "s' = s\<lparr>remaining_erase_sector := remaining_erase_sector s,
        next_erase_sector := next_erase_sector s\<rparr>" by simp
    then show ?thesis by blast
  next
    case 2
    then show ?thesis by blast
  qed
qed

text \<open>The erase loop moves the two erase counters and nothing else.\<close>

lemma erase_loop_frame:
  "erase_loop last_sector h s = Some (h', s') \<Longrightarrow>
     \<exists>r n. s' = s\<lparr>remaining_erase_sector := r, next_erase_sector := n\<rparr>"
proof (induction last_sector h s rule: erase_loop.induct)
  case (1 last_sector h s)
  show ?case
  proof (cases "0 < sint (remaining_erase_sector s)
      \<and> sint (next_erase_sector s) \<le> sint last_sector")
    case True
    with "1.prems" obtain h1 s1 where a: "start_next_erase h s = Some (h1, s1)"
      and b: "erase_loop last_sector h1 s1 = Some (h', s')"
      by (subst (asm) erase_loop.simps) (auto split: option.splits)
    from "1.IH" [OF True a refl b] obtain r n
      where c: "s' = s1\<lparr>remaining_erase_sector := r, next_erase_sector := n\<rparr>" by blast
    from start_next_erase_frame [OF a] obtain r1 n1
      where "s1 = s\<lparr>remaining_erase_sector := r1, next_erase_sector := n1\<rparr>"
      by blast
    with c have "s' = s\<lparr>remaining_erase_sector := r, next_erase_sector := n\<rparr>" by simp
    then show ?thesis by blast
  next
    case False
    with "1.prems" have "s' = s"
      by (subst (asm) erase_loop.simps) auto
    then have "s' = s\<lparr>remaining_erase_sector := remaining_erase_sector s,
        next_erase_sector := next_erase_sector s\<rparr>" by simp
    then show ?thesis by blast
  qed
qed

lemma erase_loop_exit:
  "erase_loop last_sector h s = Some (h', s') \<Longrightarrow>
     \<not> (0 < sint (remaining_erase_sector s')
         \<and> sint (next_erase_sector s') \<le> sint last_sector)"
proof (induction last_sector h s rule: erase_loop.induct)
  case (1 last_sector h s)
  show ?case
  proof (cases "0 < sint (remaining_erase_sector s)
      \<and> sint (next_erase_sector s) \<le> sint last_sector")
    case True
    with "1.prems" obtain h1 s1 where a: "start_next_erase h s = Some (h1, s1)"
      and b: "erase_loop last_sector h1 s1 = Some (h', s')"
      by (subst (asm) erase_loop.simps) (auto split: option.splits)
    from "1.IH" [OF True a refl b] show ?thesis .
  next
    case False
    with "1.prems" have "s' = s"
      by (subst (asm) erase_loop.simps) auto
    with False show ?thesis by simp
  qed
qed

lemma start_next_erase_inv:
  assumes "start_next_erase h s = Some (h', s')" and "erase_inv E s" and "E < 2 ^ 30"
  shows "erase_inv E s'"
proof -
  from start_next_erase_cases [OF assms(1)]
  consider "s' = s"
    | k where "remaining_erase_sector s \<noteq> 0" "k = 1 \<or> k = 16 \<and> 16 \<le> sint (remaining_erase_sector s)"
        "s' = s\<lparr> remaining_erase_sector := remaining_erase_sector s - k,
                next_erase_sector := next_erase_sector s + k \<rparr>"
    by blast
  then show ?thesis
  proof cases
    case 1
    with assms show ?thesis by simp
  next
    case 2
    let ?r = "remaining_erase_sector s" and ?n = "next_erase_sector s"
    from assms(2) have r0: "0 \<le> sint ?r" and n0: "0 \<le> sint ?n" and e: "sint ?n + sint ?r = E"
      by (auto simp: erase_inv_def)
    from 2(1) have "sint ?r \<noteq> 0" by (simp add: signed_eq_0_iff)
    with r0 have r1: "1 \<le> sint ?r" by simp
    from 2(2) have k: "0 \<le> sint k" "sint k \<le> sint ?r" "sint k \<le> 16"
      using r1 by auto
    have a: "sint (?r - k) = sint ?r - sint k"
      using k by (intro sint_sub_small) auto
    have b: "sint (?n + k) = sint ?n + sint k"
      using k n0 e r0 assms(3) by (intro sint_add_small) auto
    from a b k r0 n0 e 2(3) show ?thesis
      by (simp add: erase_inv_def)
  qed
qed

lemma erase_loop_inv:
  "erase_loop last_sector h s = Some (h', s') \<Longrightarrow> erase_inv E s \<Longrightarrow> E < 2 ^ 30
    \<Longrightarrow> erase_inv E s'"
proof (induction last_sector h s rule: erase_loop.induct)
  case (1 last_sector h s)
  show ?case
  proof (cases "0 < sint (remaining_erase_sector s)
      \<and> sint (next_erase_sector s) \<le> sint last_sector")
    case True
    with "1.prems" obtain h1 s1 where a: "start_next_erase h s = Some (h1, s1)"
      and b: "erase_loop last_sector h1 s1 = Some (h', s')"
      by (subst (asm) erase_loop.simps) (auto split: option.splits)
    from start_next_erase_inv [OF a "1.prems"(2,3)] have "erase_inv E s1" .
    from "1.IH" [OF True a refl b this "1.prems"(3)] show ?thesis .
  next
    case False
    with "1.prems" have "s' = s"
      by (subst (asm) erase_loop.simps) auto
    with "1.prems" show ?thesis by simp
  qed
qed


lemma div_up: "(x::nat) \<le> (x div 4096 + 1) * 4096"
proof -
  define q r where "q = x div 4096" and "r = x mod 4096"
  have "q * 4096 + r = x" unfolding q_def r_def by (rule div_mult_mod_eq)
  moreover have "r < 4096" unfolding r_def by simp
  ultimately have "x \<le> (q + 1) * 4096" by (simp add: algebra_simps)
  then show ?thesis unfolding q_def .
qed

lemma div_down: "(y::nat) \<le> y div 4096 * 4096 + 4095"
proof -
  define q r where "q = y div 4096" and "r = y mod 4096"
  have "q * 4096 + r = y" unfolding q_def r_def by (rule div_mult_mod_eq)
  moreover have "r < 4096" unfolding r_def by simp
  ultimately have "y \<le> q * 4096 + 4095" by linarith
  then show ?thesis unfolding q_def .
qed

lemma erase_total_bound:
  assumes "no_wrap ofs tot"
  shows "int (erase_total ofs tot) < 2 ^ 30"
proof -
  from assms have "ofs < 4294967296" "ofs mod 4096 + tot + 4095 < 4294967296"
    by (auto simp: no_wrap_def)
  then have "ofs div 4096 < 1048576" "(ofs mod 4096 + tot + 4095) div 4096 < 1048576"
    by (simp_all add: less_mult_imp_div_less)
  then have "int (erase_total ofs tot) < 1073741824"
    unfolding erase_total_def by linarith
  then show ?thesis by simp
qed

lemma erase_total_covers: "ofs + tot \<le> erase_total ofs tot * 4096"
proof -
  define y q r p where "y = ofs mod 4096 + tot + 4095" and "q = ofs div 4096"
    and "r = ofs mod 4096" and "p = y div 4096"
  have a: "q * 4096 + r = ofs" unfolding q_def r_def by (rule div_mult_mod_eq)
  have b: "y \<le> p * 4096 + 4095" unfolding p_def by (rule div_down)
  have c: "y = r + tot + 4095" unfolding y_def r_def ..
  from a b c have "ofs + tot \<le> (q + p) * 4096" by (simp add: algebra_simps)
  then show ?thesis unfolding erase_total_def q_def p_def y_def .
qed

lemma begin_counters:
  assumes "handle_flash_begin total_size offset h s = Some (e, h1, s1)"
    and "unat offset mod 4096 + unat total_size + 4095 < 2 ^ 32"
  shows "sint (next_erase_sector s1) = int (unat offset div 4096)"
    and "sint (remaining_erase_sector s1)
      = int ((unat offset mod 4096 + unat total_size + 4095) div 4096)"
proof -
  let ?O = "unat offset" and ?T = "unat total_size"
  from assms(1) have s1:
    "next_erase_sector s1 = offset div 4096"
    "remaining_erase_sector s1 = (offset mod 4096 + total_size + 4095) div 4096"
    by (auto simp: handle_flash_begin_def Let_def FLASH_SECTOR_SIZE_def add_ac
        split: option.splits if_splits)
  note nw = assms(2)
  have m: "unat (offset mod 4096) = ?O mod 4096" by (simp add: unat_mod)
  have "unat (offset mod 4096) + unat total_size < 2 ^ LENGTH(32)"
    using nw m by simp
  then have "unat (offset mod 4096 + total_size) = unat (offset mod 4096) + unat total_size"
    by (rule unat_add_lem [THEN iffD1])
  with m have a: "unat (offset mod 4096 + total_size) = ?O mod 4096 + ?T" by simp
  have "unat (offset mod 4096 + total_size) + unat (4095 :: 32 word) < 2 ^ LENGTH(32)"
    using nw a by simp
  then have "unat (offset mod 4096 + total_size + 4095)
      = unat (offset mod 4096 + total_size) + unat (4095 :: 32 word)"
    by (rule unat_add_lem [THEN iffD1])
  with a have b: "unat (offset mod 4096 + total_size + 4095) = ?O mod 4096 + ?T + 4095"
    by simp
  have n: "unat (next_erase_sector s1) = ?O div 4096"
    by (simp add: s1 unat_div)
  have r: "unat (remaining_erase_sector s1) = (?O mod 4096 + ?T + 4095) div 4096"
    by (simp add: s1 unat_div b)
  have "?O < 2 ^ 32" using unsigned_less [of offset] by simp
  then have "?O div 4096 < 2 ^ 31" by simp
  with n show "sint (next_erase_sector s1) = int (?O div 4096)"
    by (simp add: sint_of_small)
  from nw have "(?O mod 4096 + ?T + 4095) div 4096 < 2 ^ 31" by simp
  with r show "sint (remaining_erase_sector s1) = int ((?O mod 4096 + ?T + 4095) div 4096)"
    by (simp add: sint_of_small)
qed

lemma begin_sess_inv:
  assumes "handle_flash_begin total_size offset h s = Some (e, h1, s1)"
    and "no_wrap (unat offset) (unat total_size)"
  shows "sess_inv (unat offset) (unat total_size) s1"
proof -
  from assms(1) have s1: "next_write s1 = offset" "remaining s1 = total_size"
    by (auto simp: handle_flash_begin_def Let_def split: option.splits if_splits)
  from assms(2) have "unat offset mod 4096 + unat total_size + 4095 < 2 ^ 32"
    by (simp add: no_wrap_def)
  from begin_counters [OF assms(1) this] s1 show ?thesis
    unfolding sess_inv_def erase_inv_def erase_total_def by simp
qed

lemma handle_flash_data_Some:
  assumes "handle_flash_data len0 h s = Some (h', s')"
  shows "min len0 (remaining s) = 0 \<and> h' = h \<and> s' = s \<or>
     min len0 (remaining s) \<noteq> 0 \<and>
     (\<exists>h1 s1 h2 res.
        erase_loop ((next_write s + min len0 (remaining s)) div FLASH_SECTOR_SIZE) h s
          = Some (h1, s1) \<and>
        wait_spiflash_ready h1 = Some h2 \<and>
        SPIWrite (next_write s) (min len0 (remaining s)) h2 = Some (res, h') \<and>
        s' = s1\<lparr> last_error := (if res \<noteq> 0 then ESP_FAILED_SPI_OP else last_error s),
                 next_write := next_write s + min len0 (remaining s),
                 remaining := remaining s - min len0 (remaining s) \<rparr>)"
proof -
  have c: "(if remaining s < len0 then remaining s else len0) = min len0 (remaining s)"
    by (auto simp: min_def)
  show ?thesis
  proof (cases "min len0 (remaining s) = 0")
    case True
    with assms c show ?thesis by (simp add: handle_flash_data_def)
  next
    case False
    with assms c obtain h1 s1 h2 res where
      e: "erase_loop ((next_write s + min len0 (remaining s)) div FLASH_SECTOR_SIZE) h s
          = Some (h1, s1)"
      and w: "wait_spiflash_ready h1 = Some h2"
      and p: "SPIWrite (next_write s1) (min len0 (remaining s)) h2 = Some (res, h')"
      and s': "s' = (if res \<noteq> 0 then s1\<lparr>last_error := ESP_FAILED_SPI_OP\<rparr> else s1)
          \<lparr> next_write := next_write (if res \<noteq> 0 then s1\<lparr>last_error := ESP_FAILED_SPI_OP\<rparr> else s1)
               + min len0 (remaining s),
            remaining := remaining (if res \<noteq> 0 then s1\<lparr>last_error := ESP_FAILED_SPI_OP\<rparr> else s1)
               - min len0 (remaining s) \<rparr>"
      by (simp add: handle_flash_data_def Let_def split: option.splits prod.splits)
    from erase_loop_frame [OF e] obtain r n
      where f: "s1 = s\<lparr>remaining_erase_sector := r, next_erase_sector := n\<rparr>" by blast
    from f s' have "s' = s1\<lparr> last_error := (if res \<noteq> 0 then ESP_FAILED_SPI_OP else last_error s),
                 next_write := next_write s + min len0 (remaining s),
                 remaining := remaining s - min len0 (remaining s) \<rparr>"
      by simp
    moreover from f p have "SPIWrite (next_write s) (min len0 (remaining s)) h2 = Some (res, h')"
      by simp
    ultimately show ?thesis using False e w by blast
  qed
qed


lemma handle_flash_encrypt_data_Some:
  assumes "handle_flash_encrypt_data len0 h0 s = Some (h', s')"
  shows "min len0 (remaining s) = 0 \<and> s' = s \<or>
     min len0 (remaining s) \<noteq> 0 \<and>
     (\<exists>h h1 s1 h2 h3 res.
        erase_loop ((next_write s + min len0 (remaining s)) div FLASH_SECTOR_SIZE) h s
          = Some (h1, s1) \<and>
        wait_spiflash_ready h1 = Some h2 \<and>
        SPI_Encrypt_Write (next_write s) (min len0 (remaining s)) h2 = Some (res, h3) \<and>
        s' = s1\<lparr> last_error := (if res \<noteq> 0 then ESP_FAILED_SPI_OP else last_error s),
                 next_write := next_write s + min len0 (remaining s),
                 remaining := remaining s - min len0 (remaining s) \<rparr>)"
proof -
  have c: "(if remaining s < len0 then remaining s else len0) = min len0 (remaining s)"
    by (auto simp: min_def)
  show ?thesis
  proof (cases "min len0 (remaining s) = 0")
    case True
    with assms c show ?thesis by (simp add: handle_flash_encrypt_data_def Let_def)
  next
    case False
    with assms c obtain h h1 s1 h2 h3 res where
      e: "erase_loop ((next_write s + min len0 (remaining s)) div FLASH_SECTOR_SIZE) h s
          = Some (h1, s1)"
      and w: "wait_spiflash_ready h1 = Some h2"
      and p: "SPI_Encrypt_Write (next_write s1) (min len0 (remaining s)) h2 = Some (res, h3)"
      and s': "s' = (if res \<noteq> 0 then s1\<lparr>last_error := ESP_FAILED_SPI_OP\<rparr> else s1)
          \<lparr> next_write := next_write (if res \<noteq> 0 then s1\<lparr>last_error := ESP_FAILED_SPI_OP\<rparr> else s1)
               + min len0 (remaining s),
            remaining := remaining (if res \<noteq> 0 then s1\<lparr>last_error := ESP_FAILED_SPI_OP\<rparr> else s1)
               - min len0 (remaining s) \<rparr>"
      by (simp add: handle_flash_encrypt_data_def Let_def split: option.splits prod.splits)
    from erase_loop_frame [OF e] obtain r n
      where f: "s1 = s\<lparr>remaining_erase_sector := r, next_erase_sector := n\<rparr>" by blast
    from f s' have "s' = s1\<lparr> last_error := (if res \<noteq> 0 then ESP_FAILED_SPI_OP else last_error s),
                 next_write := next_write s + min len0 (remaining s),
                 remaining := remaining s - min len0 (remaining s) \<rparr>"
      by simp
    moreover from f p
    have "SPI_Encrypt_Write (next_write s) (min len0 (remaining s)) h2 = Some (res, h3)"
      by simp
    ultimately show ?thesis using False e w by blast
  qed
qed

text \<open>The write step keeps the session invariant.\<close>

lemma write_step_inv:
  assumes inv: "sess_inv ofs tot s" and nw: "no_wrap ofs tot"
    and e: "erase_loop last_sector h s = Some (h1, s1)"
    and c: "c \<le> remaining s"
    and s': "s' = s1\<lparr> last_error := err, next_write := next_write s + c,
                        remaining := remaining s - c \<rparr>"
  shows "sess_inv ofs tot s'"
proof -
  from inv have a: "unat (next_write s) + unat (remaining s) = ofs + tot"
    and b: "erase_inv (int (erase_total ofs tot)) s" by (auto simp: sess_inv_def)
  from erase_loop_inv [OF e b erase_total_bound [OF nw]]
  have b1: "erase_inv (int (erase_total ofs tot)) s1" .
  from c have cu: "unat c \<le> unat (remaining s)" by (simp add: word_le_nat_alt)
  from nw have "ofs + tot < 2 ^ 32" by (simp add: no_wrap_def)
  with a cu have "unat (next_write s) + unat c < 2 ^ LENGTH(32)" by simp
  then have p: "unat (next_write s + c) = unat (next_write s) + unat c"
    by (rule unat_add_lem [THEN iffD1])
  from c have m: "unat (remaining s - c) = unat (remaining s) - unat c"
    by (rule unat_sub)
  from a cu p m b1 s' show ?thesis
    by (simp add: sess_inv_def erase_inv_def)
qed

lemma erase_loop_frontier:
  assumes inv: "sess_inv ofs tot s" and nw: "no_wrap ofs tot"
    and c: "c \<le> remaining s"
    and e: "erase_loop ((next_write s + c) div FLASH_SECTOR_SIZE) h s = Some (h1, s1)"
  shows "(remaining_erase_sector s1 = 0
          \<or> sint ((next_write s + c) div FLASH_SECTOR_SIZE) < sint (next_erase_sector s1))
       \<and> int (unat (next_write s) + unat c) \<le> sint (next_erase_sector s1) * 4096"
proof -
  let ?last = "(next_write s + c) div FLASH_SECTOR_SIZE"
  from inv have a: "unat (next_write s) + unat (remaining s) = ofs + tot"
    and b: "erase_inv (int (erase_total ofs tot)) s" by (auto simp: sess_inv_def)
  from erase_loop_inv [OF e b erase_total_bound [OF nw]]
  have b1: "erase_inv (int (erase_total ofs tot)) s1" .
  then have r0: "0 \<le> sint (remaining_erase_sector s1)"
    and sum: "sint (next_erase_sector s1) + sint (remaining_erase_sector s1)
        = int (erase_total ofs tot)"
    by (auto simp: erase_inv_def)
  from erase_loop_exit [OF e]
  have ex: "sint (remaining_erase_sector s1) \<le> 0 \<or> sint ?last < sint (next_erase_sector s1)"
    by auto
  from c have cu: "unat c \<le> unat (remaining s)" by (simp add: word_le_nat_alt)
  from nw have "ofs + tot < 2 ^ 32" by (simp add: no_wrap_def)
  with a cu have lt: "unat (next_write s) + unat c < 2 ^ LENGTH(32)" by simp
  then have p: "unat (next_write s + c) = unat (next_write s) + unat c"
    by (rule unat_add_lem [THEN iffD1])
  have ul: "unat ?last = (unat (next_write s) + unat c) div 4096"
    by (simp add: FLASH_SECTOR_SIZE_def unat_div p)
  from lt have "(unat (next_write s) + unat c) div 4096 < 2 ^ 31" by simp
  with ul have sl: "sint ?last = int ((unat (next_write s) + unat c) div 4096)"
    by (simp add: sint_of_small)
  from ex show ?thesis
  proof
    assume "sint (remaining_erase_sector s1) \<le> 0"
    with r0 have z: "sint (remaining_erase_sector s1) = 0" by simp
    then have z': "remaining_erase_sector s1 = 0" by (simp add: signed_eq_0_iff)
    from z sum have "sint (next_erase_sector s1) = int (erase_total ofs tot)" by simp
    moreover have "unat (next_write s) + unat c \<le> erase_total ofs tot * 4096"
      using erase_total_covers [of ofs tot] a cu by linarith
    ultimately have "int (unat (next_write s) + unat c) \<le> sint (next_erase_sector s1) * 4096"
      by (metis of_nat_le_iff of_nat_mult of_nat_numeral)
    with z' show ?thesis by simp
  next
    assume l: "sint ?last < sint (next_erase_sector s1)"
    with sl have "int ((unat (next_write s) + unat c) div 4096) + 1 \<le> sint (next_erase_sector s1)"
      by simp
    moreover have "int (unat (next_write s) + unat c)
        \<le> int (((unat (next_write s) + unat c) div 4096 + 1) * 4096)"
      by (simp only: of_nat_le_iff div_up)
    then have "int (unat (next_write s) + unat c)
        \<le> (int ((unat (next_write s) + unat c) div 4096) + 1) * 4096"
      by simp
    ultimately have "int (unat (next_write s) + unat c) \<le> sint (next_erase_sector s1) * 4096"
      by linarith
    with l show ?thesis by simp
  qed
qed


subsection \<open>What the deflate loop preserves\<close>

lemma deflate_step_preserves:
  assumes e: "\<And>h s h' s'. P s \<Longrightarrow> start_next_erase h s = Some (h', s') \<Longrightarrow> P s'"
    and d: "\<And>len h s h' s'. P s \<Longrightarrow> handle_flash_data len h s = Some (h', s') \<Longrightarrow> P s'"
    and u: "\<And>s i rc no. P s \<Longrightarrow> P (s\<lparr>inflator := i, remaining_compressed := rc, next_out := no\<rparr>)"
    and z: "\<And>s. P s \<Longrightarrow> P (s\<lparr>next_out := 0\<rparr>)"
    and p: "P s" and r: "deflate_step len h s = Some (len', st, h', s')"
  shows "P s'"
proof -
  from r obtain h1 s1 where a: "start_next_erase h s = Some (h1, s1)"
    by (auto simp: deflate_step_def Let_def split: option.splits)
  from e [OF p a] have p1: "P s1" .
  from r a obtain st0 in_used out_made infl h2 where
    t: "tinfl_decompress len (OUT_BUF_SIZE - next_out s)
          (if len < remaining_compressed s
           then TINFL_FLAG_PARSE_ZLIB_HEADER OR TINFL_FLAG_HAS_MORE_INPUT
           else TINFL_FLAG_PARSE_ZLIB_HEADER) h1 = Some ((st0, in_used, out_made, infl), h2)"
    by (auto simp: deflate_step_def Let_def split: option.splits)
  define s2 where "s2 = s1\<lparr> inflator := infl,
      remaining_compressed := remaining_compressed s1 - in_used,
      next_out := next_out s1 + out_made \<rparr>"
  from u [OF p1] have p2: "P s2" unfolding s2_def .
  from r a t have "s' = s2 \<or> (\<exists>h3 s3. handle_flash_data (next_out s2) h2 s2 = Some (h3, s3)
      \<and> s' = s3\<lparr>next_out := 0\<rparr>)"
    by (auto simp: deflate_step_def Let_def s2_def split: option.splits if_splits)
  then show ?thesis
  proof
    assume "s' = s2" with p2 show ?thesis by simp
  next
    assume "\<exists>h3 s3. handle_flash_data (next_out s2) h2 s2 = Some (h3, s3)
      \<and> s' = s3\<lparr>next_out := 0\<rparr>"
    then obtain h3 s3 where f: "handle_flash_data (next_out s2) h2 s2 = Some (h3, s3)"
      and s': "s' = s3\<lparr>next_out := 0\<rparr>" by blast
    from d [OF p2 f] have "P s3" .
    from z [OF this] s' show ?thesis by simp
  qed
qed

lemma deflate_loop_preserves:
  assumes e: "\<And>h s h' s'. P s \<Longrightarrow> start_next_erase h s = Some (h', s') \<Longrightarrow> P s'"
    and d: "\<And>len h s h' s'. P s \<Longrightarrow> handle_flash_data len h s = Some (h', s') \<Longrightarrow> P s'"
    and u: "\<And>s i rc no. P s \<Longrightarrow> P (s\<lparr>inflator := i, remaining_compressed := rc, next_out := no\<rparr>)"
    and z: "\<And>s. P s \<Longrightarrow> P (s\<lparr>next_out := 0\<rparr>)"
  shows "P s \<Longrightarrow> deflate_loop len st h s = Some (st', h', s') \<Longrightarrow> P s'"
proof (induction len st h s rule: deflate_loop.induct)
  case (1 len st h s)
  show ?case
  proof (cases "0 < len \<and> 0 < remaining s \<and> TINFL_STATUS_DONE < st")
    case True
    with "1.prems"(2) obtain len1 st1 h1 s1
      where a: "deflate_step len h s = Some (len1, st1, h1, s1)"
        and b: "deflate_loop len1 st1 h1 s1 = Some (st', h', s')"
      by (subst (asm) deflate_loop.simps) (auto split: option.splits)
    have "P s1"
    proof (rule deflate_step_preserves [where P = P, OF _ _ _ _ "1.prems"(1) a])
      show "\<And>h s h' s'. P s \<Longrightarrow> start_next_erase h s = Some (h', s') \<Longrightarrow> P s'"
        by (rule e)
      show "\<And>len h s h' s'. P s \<Longrightarrow> handle_flash_data len h s = Some (h', s') \<Longrightarrow> P s'"
        by (rule d)
      show "\<And>s i rc no. P s
          \<Longrightarrow> P (s\<lparr>inflator := i, remaining_compressed := rc, next_out := no\<rparr>)"
        by (rule u)
      show "\<And>s. P s \<Longrightarrow> P (s\<lparr>next_out := 0\<rparr>)" by (rule z)
    qed
    from "1.IH" [OF True a refl refl refl this b] show ?thesis .
  next
    case False
    with "1.prems"(2) have "s' = s"
      by (subst (asm) deflate_loop.simps) auto
    with "1.prems"(1) show ?thesis by simp
  qed
qed

subsection \<open>The plain data operation returns on a device that becomes ready\<close>

text \<open>Each erase asks the device twice at most for a ready answer (once to start, once
  for the write-enable), and the program primitive once more.\<close>

lemma spin_ready_total:
  "0 < count_list bs True \<Longrightarrow>
     \<exists>bs'. spin_ready bs = Some bs' \<and> count_list bs True = Suc (count_list bs' True)"
  by (induction bs) auto

lemma start_next_erase_total:
  assumes "2 * nat (sint (remaining_erase_sector s)) + 1 \<le> count_list (ready_polls h) True"
    and "0 < sint (remaining_erase_sector s)"
  shows "\<exists>h' s'. start_next_erase h s = Some (h', s') \<and>
     2 * nat (sint (remaining_erase_sector s')) + 1 \<le> count_list (ready_polls h') True \<and>
     program_results h' = program_results h"
proof -
  let ?r = "remaining_erase_sector s"
  from assms(2) have nz: "?r \<noteq> 0" by auto
  from assms have c3: "3 \<le> count_list (ready_polls h) True" by linarith
  then obtain b bs where l: "ready_polls h = b # bs" by (cases "ready_polls h") auto
  show ?thesis
  proof (cases b)
    case False
    with l nz assms(1) show ?thesis
      by (simp add: start_next_erase_def spiflash_is_ready_def)
  next
    case True
    with l c3 have "0 < count_list bs True" by simp
    from spin_ready_total [OF this] obtain bs' where
      sp: "spin_ready bs = Some bs'" and cn: "count_list bs True = Suc (count_list bs' True)"
      by blast
    define k :: "32 word" where "k = (if sint SECTORS_PER_BLOCK \<le> sint ?r
        \<and> sint (next_erase_sector s) smod sint SECTORS_PER_BLOCK = 0 then SECTORS_PER_BLOCK else 1)"
    have k: "0 \<le> sint k" "sint k \<le> sint ?r" "1 \<le> sint k"
      using assms(2) by (auto simp: k_def SECTORS_PER_BLOCK_def)
    then have "sint (?r - k) = sint ?r - sint k" by (intro sint_sub_small) auto
    with k have d: "nat (sint (?r - k)) + 1 \<le> nat (sint ?r)" by linarith
    from l True cn assms(1) have "2 * nat (sint ?r) + 1 \<le> count_list bs' True + 2" by simp
    with d have "2 * nat (sint (?r - k)) + 1 \<le> count_list bs' True" by linarith
    with l True sp nz show ?thesis
      by (simp add: start_next_erase_def spiflash_is_ready_def spi_write_enable_def
          wait_spiflash_ready_def Let_def k_def)
  qed
qed

lemma erase_loop_total:
  "2 * nat (sint (remaining_erase_sector s)) + 1 \<le> count_list (ready_polls h) True \<Longrightarrow>
     \<exists>h' s'. erase_loop last_sector h s = Some (h', s') \<and>
       1 \<le> count_list (ready_polls h') True \<and> program_results h' = program_results h"
proof (induction last_sector h s rule: erase_loop.induct)
  case (1 last_sector h s)
  show ?case
  proof (cases "0 < sint (remaining_erase_sector s)
      \<and> sint (next_erase_sector s) \<le> sint last_sector")
    case True
    with start_next_erase_total [OF "1.prems"] obtain h1 s1 where
      a: "start_next_erase h s = Some (h1, s1)"
      and b: "2 * nat (sint (remaining_erase_sector s1)) + 1 \<le> count_list (ready_polls h1) True"
      and c: "program_results h1 = program_results h" by blast
    from "1.IH" [OF True a refl b] c True a show ?thesis
      by (subst erase_loop.simps) auto
  next
    case False
    with "1.prems" show ?thesis
      by (subst erase_loop.simps) auto
  qed
qed

lemma handle_flash_data_returns:
  assumes "2 * nat (sint (remaining_erase_sector s)) + 1 \<le> count_list (ready_polls h) True"
    and "program_results h \<noteq> []"
  shows "\<exists>h' s'. handle_flash_data len h s = Some (h', s')"
proof (cases "(if remaining s < len then remaining s else len) = 0")
  case True
  then show ?thesis by (simp add: handle_flash_data_def)
next
  case False
  let ?c = "if remaining s < len then remaining s else len"
  from erase_loop_total [OF assms(1), of "(next_write s + ?c) div FLASH_SECTOR_SIZE"]
  obtain h1 s1 where e: "erase_loop ((next_write s + ?c) div FLASH_SECTOR_SIZE) h s = Some (h1, s1)"
    and c: "1 \<le> count_list (ready_polls h1) True" and p: "program_results h1 = program_results h"
    by blast
  from c have "0 < count_list (ready_polls h1) True" by simp
  from spin_ready_total [OF this] obtain bs' where sp: "spin_ready (ready_polls h1) = Some bs'"
    by blast
  from assms(2) p obtain r rs where "program_results h1 = r # rs"
    by (metis neq_Nil_conv)
  with False e sp show ?thesis
    by (simp add: handle_flash_data_def Let_def wait_spiflash_ready_def SPIWrite_def)
qed

section \<open>The claims\<close>

subsection \<open>C4: the results of \<open>handle_flash_end\<close>\<close>

text \<open>
  C4. \<open>handle_flash_end\<close> returns \<open>ESP_NOT_IN_FLASH_MODE\<close> when no session is active
  and \<open>ESP_NOT_ENOUGH_DATA\<close> when an active session still expects bytes, both without
  touching the state; otherwise it clears the active flag and returns the latched
  \<open>last_error\<close>. A begin for 100 bytes at offset 0 followed directly by the end gives
  \<open>ESP_NOT_ENOUGH_DATA\<close>, whatever the unlock returned.
\<close>

theorem handle_flash_end_results:
  "(\<not> in_flash_mode s \<longrightarrow> handle_flash_end s = (ESP_NOT_IN_FLASH_MODE, s)) \<and>
   (in_flash_mode s \<and> 0 < remaining s \<longrightarrow> handle_flash_end s = (ESP_NOT_ENOUGH_DATA, s)) \<and>
   (in_flash_mode s \<and> remaining s = 0 \<longrightarrow>
      handle_flash_end s = (last_error s, s\<lparr>in_flash_mode := False\<rparr>)) \<and>
   (handle_flash_begin 100 0 h s = Some (e, h1, s1) \<longrightarrow>
      fst (handle_flash_end s1) = ESP_NOT_ENOUGH_DATA)"
  by (auto simp: handle_flash_end_def handle_flash_begin_def Let_def
      split: option.splits if_splits)

theorem handle_flash_end_results_witness:
  "\<not> in_flash_mode fs_init
   \<and> handle_flash_end fs_init = (ESP_NOT_IN_FLASH_MODE, fs_init)
   \<and> in_flash_mode (fs_init\<lparr>in_flash_mode := True, remaining := 100, remaining_erase_sector := 1\<rparr>)
   \<and> 0 < remaining (fs_init\<lparr>in_flash_mode := True, remaining := 100, remaining_erase_sector := 1\<rparr>)
   \<and> handle_flash_end (fs_init\<lparr>in_flash_mode := True, remaining := 100, remaining_erase_sector := 1\<rparr>)
       = (ESP_NOT_ENOUGH_DATA, fs_init\<lparr>in_flash_mode := True, remaining := 100, remaining_erase_sector := 1\<rparr>)
   \<and> in_flash_mode (fs_init\<lparr>in_flash_mode := True, last_error := ESP_FAILED_SPI_OP\<rparr>)
   \<and> remaining (fs_init\<lparr>in_flash_mode := True, last_error := ESP_FAILED_SPI_OP\<rparr>) = 0
   \<and> handle_flash_end (fs_init\<lparr>in_flash_mode := True, last_error := ESP_FAILED_SPI_OP\<rparr>)
       = (ESP_FAILED_SPI_OP, fs_init\<lparr>last_error := ESP_FAILED_SPI_OP\<rparr>)
   \<and> handle_flash_begin 100 0 (example_device [True] [] []) fs_init
       = Some (ESP_OK, (example_device [] [] [])\<lparr>trace := [Write_enable, Write_status 0]\<rparr>,
               fs_init\<lparr>in_flash_mode := True, remaining := 100, remaining_erase_sector := 1\<rparr>)
   \<and> fst (handle_flash_end (fs_init\<lparr>in_flash_mode := True, remaining := 100, remaining_erase_sector := 1\<rparr>))
       = ESP_NOT_ENOUGH_DATA"
  using handle_flash_end_results [of fs_init "example_device [True] [] []" ESP_OK
      "(example_device [] [] [])\<lparr>trace := [Write_enable, Write_status 0]\<rparr>"
      "fs_init\<lparr>in_flash_mode := True, remaining := 100, remaining_erase_sector := 1\<rparr>"]
    handle_flash_end_results [of
      "fs_init\<lparr>in_flash_mode := True, remaining := 100, remaining_erase_sector := 1\<rparr>"]
    handle_flash_end_results [of
      "fs_init\<lparr>in_flash_mode := True, last_error := ESP_FAILED_SPI_OP\<rparr>"]
  by (simp add: fs_init_def example_device_def handle_flash_begin_def SPIUnlock_def
      spi_write_enable_def wait_spiflash_ready_def STATUS_QIE_BIT_def FLASH_SECTOR_SIZE_def
      SPI_FLASH_RESULT_OK_def Let_def)

subsection \<open>C7: block or sector\<close>

text \<open>C's remainder on a signed value is 0 exactly when the value is a multiple.\<close>

lemma smod_16_dvd: "(k::int) smod 16 = 0 \<longleftrightarrow> 16 dvd k"
  by (auto simp: smod_int_alt_def sgn_if dvd_eq_mod_eq_0 zmod_zminus1_eq_if split: if_splits)

text \<open>
  C7. When sectors remain to erase, the device answers ready and the write-enable gets
  its ready answer, \<open>start_next_erase\<close> issues one erase command: a block erase that moves
  both counters by \<open>SECTORS_PER_BLOCK\<close> if and only if at least that many sectors remain
  and \<open>next_erase_sector\<close> is a multiple of \<open>SECTORS_PER_BLOCK\<close>, and a sector erase
  that moves them by 1 otherwise.
\<close>

theorem start_next_erase_tie_break:
  assumes "remaining_erase_sector s \<noteq> 0"
    and "ready_polls h = True # bs"
    and "spin_ready bs = Some bs'"
  shows "start_next_erase h s =
     (if sint SECTORS_PER_BLOCK \<le> sint (remaining_erase_sector s)
         \<and> sint SECTORS_PER_BLOCK dvd sint (next_erase_sector s)
      then Some (h\<lparr> ready_polls := bs',
                     trace := trace h @ [Write_enable,
                       Erase SPI_FLASH_BE ((next_erase_sector s * FLASH_SECTOR_SIZE) AND 0xffffff)] \<rparr>,
                 s\<lparr> remaining_erase_sector := remaining_erase_sector s - SECTORS_PER_BLOCK,
                     next_erase_sector := next_erase_sector s + SECTORS_PER_BLOCK \<rparr>)
      else Some (h\<lparr> ready_polls := bs',
                     trace := trace h @ [Write_enable,
                       Erase SPI_FLASH_SE ((next_erase_sector s * FLASH_SECTOR_SIZE) AND 0xffffff)] \<rparr>,
                 s\<lparr> remaining_erase_sector := remaining_erase_sector s - 1,
                     next_erase_sector := next_erase_sector s + 1 \<rparr>))"
  using assms
  by (simp add: start_next_erase_def spiflash_is_ready_def spi_write_enable_def
      wait_spiflash_ready_def Let_def SECTORS_PER_BLOCK_def smod_16_dvd)

theorem start_next_erase_tie_break_witness:
  "remaining_erase_sector (fs_init\<lparr>remaining_erase_sector := 16, next_erase_sector := 32\<rparr>) \<noteq> 0
   \<and> ready_polls (example_device [True, False, True, True] [] []) = True # [False, True, True]
   \<and> spin_ready [False, True, True] = Some [True]
   \<and> start_next_erase (example_device [True, False, True, True] [] [])
         (fs_init\<lparr>remaining_erase_sector := 16, next_erase_sector := 32\<rparr>)
       = Some ((example_device [True] [] [])\<lparr>trace := [Write_enable, Erase SPI_FLASH_BE 0x20000]\<rparr>,
               fs_init\<lparr>remaining_erase_sector := 0, next_erase_sector := 48\<rparr>)
   \<and> remaining_erase_sector (fs_init\<lparr>remaining_erase_sector := 16, next_erase_sector := 33\<rparr>) \<noteq> 0
   \<and> start_next_erase (example_device [True, False, True, True] [] [])
         (fs_init\<lparr>remaining_erase_sector := 16, next_erase_sector := 33\<rparr>)
       = Some ((example_device [True] [] [])\<lparr>trace := [Write_enable, Erase SPI_FLASH_SE 0x21000]\<rparr>,
               fs_init\<lparr>remaining_erase_sector := 15, next_erase_sector := 34\<rparr>)"
  using start_next_erase_tie_break [of "fs_init\<lparr>remaining_erase_sector := 16, next_erase_sector := 32\<rparr>"
      "example_device [True, False, True, True] [] []" "[False, True, True]" "[True]"]
    start_next_erase_tie_break [of "fs_init\<lparr>remaining_erase_sector := 16, next_erase_sector := 33\<rparr>"
      "example_device [True, False, True, True] [] []" "[False, True, True]" "[True]"]
  by (simp add: fs_init_def example_device_def SECTORS_PER_BLOCK_def FLASH_SECTOR_SIZE_def)

subsection \<open>C5: the clamp of \<open>handle_flash_data\<close>\<close>

lemma start_next_erase_trace:
  assumes "start_next_erase h s = Some (h', s')"
  shows "\<exists>es. trace h' = trace h @ es \<and> list_all erase_event es"
proof -
  from assms have "trace h' = trace h @ []
      \<or> (\<exists>c a. trace h' = trace h @ [Write_enable, Erase c a])"
    by (auto simp: start_next_erase_def spiflash_is_ready_def spi_write_enable_def
          wait_spiflash_ready_def Let_def
        split: list.splits option.splits if_splits)
  then show ?thesis
  proof
    assume "trace h' = trace h @ []"
    moreover have "list_all erase_event []" by simp
    ultimately show ?thesis by blast
  next
    assume "\<exists>c a. trace h' = trace h @ [Write_enable, Erase c a]"
    then obtain c a where "trace h' = trace h @ [Write_enable, Erase c a]" by blast
    moreover have "list_all erase_event [Write_enable, Erase c a]" by simp
    ultimately show ?thesis by blast
  qed
qed

lemma erase_loop_trace:
  "erase_loop last_sector h s = Some (h', s') \<Longrightarrow>
     \<exists>es. trace h' = trace h @ es \<and> list_all erase_event es"
proof (induction last_sector h s rule: erase_loop.induct)
  case (1 last_sector h s)
  show ?case
  proof (cases "0 < sint (remaining_erase_sector s)
      \<and> sint (next_erase_sector s) \<le> sint last_sector")
    case True
    with "1.prems" obtain h1 s1 where a: "start_next_erase h s = Some (h1, s1)"
      and b: "erase_loop last_sector h1 s1 = Some (h', s')"
      by (subst (asm) erase_loop.simps) (auto split: option.splits)
    from start_next_erase_trace [OF a] obtain es1
      where e1: "trace h1 = trace h @ es1" "list_all erase_event es1" by blast
    from "1.IH" [OF True a refl b] obtain es2
      where e2: "trace h' = trace h1 @ es2" "list_all erase_event es2" by blast
    from e1 e2 have "trace h' = trace h @ (es1 @ es2)" "list_all erase_event (es1 @ es2)"
      by simp_all
    then show ?thesis by blast
  next
    case False
    with "1.prems" have "h' = h"
      by (subst (asm) erase_loop.simps) auto
    then have "trace h' = trace h @ []" "list_all erase_event []" by simp_all
    then show ?thesis by blast
  qed
qed

lemma handle_flash_data_writes:
  assumes "handle_flash_data len h s = Some (h', s')" and "min len (remaining s) \<noteq> 0"
  shows "\<exists>es. list_all erase_event es
      \<and> trace h' = trace h @ es @ [Program (next_write s) (min len (remaining s))]
      \<and> next_write s' = next_write s + min len (remaining s)
      \<and> remaining s' = remaining s - min len (remaining s)"
proof -
  from handle_flash_data_Some [OF assms(1)] assms(2) obtain h1 s1 h2 res where
    e: "erase_loop ((next_write s + min len (remaining s)) div FLASH_SECTOR_SIZE) h s
          = Some (h1, s1)"
    and w: "wait_spiflash_ready h1 = Some h2"
    and p: "SPIWrite (next_write s) (min len (remaining s)) h2 = Some (res, h')"
    and s': "s' = s1\<lparr> last_error := (if res \<noteq> 0 then ESP_FAILED_SPI_OP else last_error s),
                 next_write := next_write s + min len (remaining s),
                 remaining := remaining s - min len (remaining s) \<rparr>"
    by blast
  from erase_loop_trace [OF e] obtain es
    where es: "trace h1 = trace h @ es" "list_all erase_event es" by blast
  from w have "trace h2 = trace h1"
    by (auto simp: wait_spiflash_ready_def split: option.splits)
  with p es have "trace h' = trace h @ es @ [Program (next_write s) (min len (remaining s))]"
    by (auto simp: SPIWrite_def split: list.splits)
  with es(2) s' show ?thesis by auto
qed

text \<open>
  C5. \<open>handle_flash_data\<close> clamps the length to \<open>remaining\<close>, for every session state
  and every length. When the clamped length is zero the call returns the device and the
  session as they were: no poll, no command, no change. Otherwise every call that returns
  has issued, after erase commands only, one program command of exactly
  \<open>min length remaining\<close> bytes at \<open>next_write\<close>, and has moved \<open>next_write\<close> up and
  \<open>remaining\<close> down by that amount; on a device that gives enough ready answers the call
  does return. In particular, when \<open>length\<close> exceeds a nonzero \<open>remaining\<close> it writes
  exactly \<open>remaining\<close> bytes and \<open>remaining\<close> is 0 afterwards.
\<close>

theorem handle_flash_data_clamps:
  "(min len (remaining s) = 0 \<longrightarrow> handle_flash_data len h s = Some (h, s)) \<and>
   (min len (remaining s) \<noteq> 0 \<and> handle_flash_data len h s = Some (h', s') \<longrightarrow>
    (\<exists>es. list_all erase_event es
       \<and> trace h' = trace h @ es @ [Program (next_write s) (min len (remaining s))]
       \<and> next_write s' = next_write s + min len (remaining s)
       \<and> remaining s' = remaining s - min len (remaining s))) \<and>
   (min len (remaining s) \<noteq> 0
      \<and> 2 * nat (sint (remaining_erase_sector s)) + 1 \<le> count_list (ready_polls h) True
      \<and> program_results h \<noteq> [] \<longrightarrow>
    (\<exists>h' s' es. handle_flash_data len h s = Some (h', s')
       \<and> list_all erase_event es
       \<and> trace h' = trace h @ es @ [Program (next_write s) (min len (remaining s))]
       \<and> next_write s' = next_write s + min len (remaining s)
       \<and> remaining s' = remaining s - min len (remaining s))) \<and>
   (remaining s < len \<and> remaining s \<noteq> 0
      \<and> 2 * nat (sint (remaining_erase_sector s)) + 1 \<le> count_list (ready_polls h) True
      \<and> program_results h \<noteq> [] \<longrightarrow>
    (\<exists>h' s' es. handle_flash_data len h s = Some (h', s')
       \<and> list_all erase_event es
       \<and> trace h' = trace h @ es @ [Program (next_write s) (remaining s)]
       \<and> next_write s' = next_write s + remaining s
       \<and> remaining s' = 0))"
proof (intro conjI impI)
  have "(if remaining s < len then remaining s else len) = min len (remaining s)"
    by (auto simp: min_def)
  moreover assume "min len (remaining s) = 0"
  ultimately have "(if remaining s < len then remaining s else len) = 0"
    by simp
  then show "handle_flash_data len h s = Some (h, s)"
    by (simp add: handle_flash_data_def)
next
  assume "min len (remaining s) \<noteq> 0 \<and> handle_flash_data len h s = Some (h', s')"
  then have "handle_flash_data len h s = Some (h', s')" and "min len (remaining s) \<noteq> 0"
    by simp_all
  then show "\<exists>es. list_all erase_event es
       \<and> trace h' = trace h @ es @ [Program (next_write s) (min len (remaining s))]
       \<and> next_write s' = next_write s + min len (remaining s)
       \<and> remaining s' = remaining s - min len (remaining s)"
    by (rule handle_flash_data_writes)
next
  assume a: "min len (remaining s) \<noteq> 0
      \<and> 2 * nat (sint (remaining_erase_sector s)) + 1 \<le> count_list (ready_polls h) True
      \<and> program_results h \<noteq> []"
  from a handle_flash_data_returns [of s h len] obtain h1 s1
    where r: "handle_flash_data len h s = Some (h1, s1)" by blast
  from a have "min len (remaining s) \<noteq> 0" by simp
  from handle_flash_data_writes [OF r this] r
  show "\<exists>h' s' es. handle_flash_data len h s = Some (h', s')
       \<and> list_all erase_event es
       \<and> trace h' = trace h @ es @ [Program (next_write s) (min len (remaining s))]
       \<and> next_write s' = next_write s + min len (remaining s)
       \<and> remaining s' = remaining s - min len (remaining s)"
    by blast
next
  assume a: "remaining s < len \<and> remaining s \<noteq> 0
      \<and> 2 * nat (sint (remaining_erase_sector s)) + 1 \<le> count_list (ready_polls h) True
      \<and> program_results h \<noteq> []"
  then have m: "min len (remaining s) = remaining s" by (auto simp: min_def)
  from a handle_flash_data_returns [of s h len] obtain h1 s1
    where r: "handle_flash_data len h s = Some (h1, s1)" by blast
  from a m have "min len (remaining s) \<noteq> 0" by simp
  from handle_flash_data_writes [OF r this] m r
  show "\<exists>h' s' es. handle_flash_data len h s = Some (h', s')
       \<and> list_all erase_event es
       \<and> trace h' = trace h @ es @ [Program (next_write s) (remaining s)]
       \<and> next_write s' = next_write s + remaining s
       \<and> remaining s' = 0"
    by auto
qed

theorem handle_flash_data_clamps_witness:
  "min 0 (remaining session_100) = 0
   \<and> handle_flash_data 0 (example_device [True, True, True] [0] []) session_100
       = Some (example_device [True, True, True] [0] [], session_100)
   \<and> min 40 (remaining session_100) \<noteq> 0
   \<and> 2 * nat (sint (remaining_erase_sector session_100)) + 1
       \<le> count_list (ready_polls (example_device [True, True, True] [0] [])) True
   \<and> program_results (example_device [True, True, True] [0] []) \<noteq> []
   \<and> handle_flash_data 40 (example_device [True, True, True] [0] []) session_100
       = Some ((example_device [] [] [])
                 \<lparr>trace := [Write_enable, Erase SPI_FLASH_SE 0, Program 0 40]\<rparr>,
               session_100\<lparr>next_write := 40, next_erase_sector := 1, remaining := 60,
                 remaining_erase_sector := 0\<rparr>)
   \<and> remaining session_100 < 4096
   \<and> remaining session_100 \<noteq> 0
   \<and> handle_flash_data 4096 (example_device [True, True, True] [0] []) session_100
       = Some ((example_device [] [] [])
                 \<lparr>trace := [Write_enable, Erase SPI_FLASH_SE 0, Program 0 100]\<rparr>,
               session_100\<lparr>next_write := 100, next_erase_sector := 1, remaining := 0,
                 remaining_erase_sector := 0\<rparr>)"
  using handle_flash_data_clamps [of 0 session_100 "example_device [True, True, True] [0] []"
      "example_device [True, True, True] [0] []" session_100]
    handle_flash_data_clamps [of 40 session_100 "example_device [True, True, True] [0] []"
      "(example_device [] [] [])
                 \<lparr>trace := [Write_enable, Erase SPI_FLASH_SE 0, Program 0 40]\<rparr>"
      "session_100\<lparr>next_write := 40, next_erase_sector := 1, remaining := 60,
                 remaining_erase_sector := 0\<rparr>"]
    handle_flash_data_clamps [of 4096 session_100 "example_device [True, True, True] [0] []"
      "(example_device [] [] [])
                 \<lparr>trace := [Write_enable, Erase SPI_FLASH_SE 0, Program 0 100]\<rparr>"
      "session_100\<lparr>next_write := 100, next_erase_sector := 1, remaining := 0,
                 remaining_erase_sector := 0\<rparr>"]
  by (simp add: run_defs)

subsection \<open>C2: a begin whose unlock fails\<close>

text \<open>
  C2 as stated fails: \<open>handle_flash_begin\<close> sets \<open>in_flash_mode\<close> before it calls
  \<open>SPIUnlock\<close> and does not take it back. On a device whose status read fails the begin
  returns \<open>ESP_FAILED_SPI_UNLOCK\<close> and \<open>is_in_flash_mode\<close> is true afterwards.
\<close>

theorem failed_unlock_leaves_session_active:
  "handle_flash_begin 100 0 ((example_device [] [] [])\<lparr>status_high := None\<rparr>) fs_init
     = Some (ESP_FAILED_SPI_UNLOCK, (example_device [] [] [])\<lparr>status_high := None\<rparr>,
             fs_init\<lparr>in_flash_mode := True, remaining := 100, remaining_erase_sector := 1\<rparr>)
   \<and> is_in_flash_mode
         (fs_init\<lparr>in_flash_mode := True, remaining := 100, remaining_erase_sector := 1\<rparr>)"
  by (simp add: handle_flash_begin_def SPIUnlock_def example_device_def fs_init_def
      is_in_flash_mode_def SPI_FLASH_RESULT_ERR_def FLASH_SECTOR_SIZE_def Let_def)

text \<open>
  C2, amended. If \<open>SPIUnlock\<close> returns nonzero, \<open>handle_flash_begin\<close> returns
  \<open>ESP_FAILED_SPI_UNLOCK\<close>; the session record has been initialised all the same, and
  \<open>is_in_flash_mode\<close> is true after the failing begin.
\<close>

theorem failed_unlock_begin:
  assumes "SPIUnlock h = Some (r, h1)" and "r \<noteq> 0"
  shows "\<exists>s1. handle_flash_begin total_size offset h s = Some (ESP_FAILED_SPI_UNLOCK, h1, s1)
      \<and> is_in_flash_mode s1 \<and> next_write s1 = offset \<and> remaining s1 = total_size
      \<and> last_error s1 = ESP_OK"
  using assms
  by (simp add: handle_flash_begin_def is_in_flash_mode_def Let_def)

theorem failed_unlock_begin_witness:
  "SPIUnlock ((example_device [] [] [])\<lparr>status_high := None\<rparr>)
     = Some (1, (example_device [] [] [])\<lparr>status_high := None\<rparr>)
   \<and> (1 :: uint32_t) \<noteq> 0
   \<and> handle_flash_begin 100 0 ((example_device [] [] [])\<lparr>status_high := None\<rparr>) fs_init
     = Some (ESP_FAILED_SPI_UNLOCK, (example_device [] [] [])\<lparr>status_high := None\<rparr>,
             fs_init\<lparr>in_flash_mode := True, remaining := 100, remaining_erase_sector := 1\<rparr>)"
  using failed_unlock_begin [of "(example_device [] [] [])\<lparr>status_high := None\<rparr>" 1
      "(example_device [] [] [])\<lparr>status_high := None\<rparr>" 100 0 fs_init]
  by (simp add: handle_flash_begin_def SPIUnlock_def example_device_def fs_init_def
      SPI_FLASH_RESULT_ERR_def FLASH_SECTOR_SIZE_def Let_def)

subsection \<open>C3: the state after a successful begin\<close>

text \<open>
  C3 as stated fails where the 32-bit sum in the sector count wraps: for
  \<open>total_size = 0xFFFFFFFF\<close> at offset 0 the begin succeeds and
  \<open>remaining_erase_sector\<close> is 0, while the ceiling is 1048576.
\<close>

theorem begin_sector_count_wraps:
  "handle_flash_begin 0xFFFFFFFF 0 (example_device [True] [] []) fs_init
     = Some (ESP_OK, (example_device [] [] [])\<lparr>trace := [Write_enable, Write_status 0]\<rparr>,
             fs_init\<lparr>in_flash_mode := True, remaining := 0xFFFFFFFF\<rparr>)
   \<and> sint (remaining_erase_sector (fs_init\<lparr>in_flash_mode := True, remaining := 0xFFFFFFFF\<rparr>)) = 0
   \<and> \<lceil>real (unat (0 :: uint32_t) mod 4096 + unat (0xFFFFFFFF :: uint32_t)) / 4096\<rceil> = 1048576"
  by (simp add: handle_flash_begin_def SPIUnlock_def example_device_def fs_init_def
      spi_write_enable_def wait_spiflash_ready_def STATUS_QIE_BIT_def
      SPI_FLASH_RESULT_OK_def FLASH_SECTOR_SIZE_def Let_def)

lemma ceiling_sectors: "\<lceil>real x / 4096\<rceil> = int ((x + 4095) div 4096)"
proof (rule ceiling_unique)
  define q where "q = (x + 4095) div 4096"
  have a: "x + 4095 \<le> q * 4096 + 4095" unfolding q_def by (rule div_down)
  have "q * 4096 + (x + 4095) mod 4096 = x + 4095" unfolding q_def by (rule div_mult_mod_eq)
  then have b: "q * 4096 \<le> x + 4095" by linarith
  from a have "real x \<le> real q * 4096" by (simp flip: of_nat_le_iff [where 'a = real])
  then show "real x / 4096 \<le> of_int (int ((x + 4095) div 4096))"
    by (simp add: q_def)
  from b have "real q * 4096 < real x + 4096"
    by (simp flip: of_nat_less_iff [where 'a = real])
  then show "of_int (int ((x + 4095) div 4096)) - 1 < real x / 4096"
    by (simp add: q_def field_simps)
qed

text \<open>
  C3, amended. After a successful \<open>handle_flash_begin total_size offset\<close> where
  \<open>offset mod FLASH_SECTOR_SIZE + total_size + FLASH_SECTOR_SIZE - 1\<close> does not exceed
  \<open>2^32 - 1\<close>: the session is active, \<open>next_write\<close> is \<open>offset\<close>, \<open>next_erase_sector\<close> is
  \<open>offset / FLASH_SECTOR_SIZE\<close>, \<open>remaining\<close> is \<open>total_size\<close>, \<open>remaining_erase_sector\<close>
  is the ceiling of \<open>(offset mod FLASH_SECTOR_SIZE + total_size) / FLASH_SECTOR_SIZE\<close>, and
  \<open>last_error\<close> is \<open>ESP_OK\<close>.
\<close>

theorem begin_initialises_session:
  assumes "handle_flash_begin total_size offset h s = Some (ESP_OK, h1, s1)"
    and "unat offset mod unat FLASH_SECTOR_SIZE + unat total_size + unat FLASH_SECTOR_SIZE - 1
           < 2 ^ 32"
  shows "is_in_flash_mode s1
    \<and> next_write s1 = offset
    \<and> sint (next_erase_sector s1) = int (unat offset div unat FLASH_SECTOR_SIZE)
    \<and> remaining s1 = total_size
    \<and> sint (remaining_erase_sector s1)
        = \<lceil>real (unat offset mod unat FLASH_SECTOR_SIZE + unat total_size)
             / real (unat FLASH_SECTOR_SIZE)\<rceil>
    \<and> get_flash_error s1 = ESP_OK"
proof -
  from assms(2) have nw: "unat offset mod 4096 + unat total_size + 4095 < 2 ^ 32"
    by (simp add: FLASH_SECTOR_SIZE_def)
  from assms(1) have f: "in_flash_mode s1" "next_write s1 = offset" "remaining s1 = total_size"
    "last_error s1 = ESP_OK"
    by (auto simp: handle_flash_begin_def Let_def split: option.splits if_splits)
  have u: "unat FLASH_SECTOR_SIZE = 4096" by (simp add: FLASH_SECTOR_SIZE_def)
  have c: "\<lceil>real (unat offset mod 4096 + unat total_size) / real (4096 :: nat)\<rceil>
      = int ((unat offset mod 4096 + unat total_size + 4095) div 4096)"
    using ceiling_sectors [of "unat offset mod 4096 + unat total_size"] by simp
  note cnt = begin_counters [OF assms(1) nw]
  have r: "sint (remaining_erase_sector s1)
      = \<lceil>real (unat offset mod 4096 + unat total_size) / real (4096 :: nat)\<rceil>"
    by (rule trans [OF cnt(2) c [symmetric]])
  show ?thesis
    unfolding u is_in_flash_mode_def get_flash_error_def
    using f cnt(1) r by blast
qed

theorem begin_initialises_session_witness:
  "handle_flash_begin 9000 4196 (example_device [True] [] []) fs_init
     = Some (ESP_OK, (example_device [] [] [])\<lparr>trace := [Write_enable, Write_status 0]\<rparr>,
             fs_init\<lparr>in_flash_mode := True, next_write := 4196, next_erase_sector := 1,
               remaining := 9000, remaining_erase_sector := 3\<rparr>)
   \<and> unat (4196 :: uint32_t) mod unat FLASH_SECTOR_SIZE + unat (9000 :: uint32_t)
         + unat FLASH_SECTOR_SIZE - 1 < 2 ^ 32
   \<and> \<lceil>real (unat (4196 :: uint32_t) mod unat FLASH_SECTOR_SIZE + unat (9000 :: uint32_t))
         / real (unat FLASH_SECTOR_SIZE)\<rceil> = 3"
  using begin_initialises_session [of 9000 4196 "example_device [True] [] []" fs_init
      "(example_device [] [] [])\<lparr>trace := [Write_enable, Write_status 0]\<rparr>"
      "fs_init\<lparr>in_flash_mode := True, next_write := 4196, next_erase_sector := 1,
               remaining := 9000, remaining_erase_sector := 3\<rparr>"]
  by (simp add: handle_flash_begin_def SPIUnlock_def example_device_def fs_init_def
      spi_write_enable_def wait_spiflash_ready_def STATUS_QIE_BIT_def
      SPI_FLASH_RESULT_OK_def FLASH_SECTOR_SIZE_def Let_def)

subsection \<open>What every data operation preserves\<close>

lemma handle_flash_data_preserves:
  assumes fr: "\<And>s r n. P s \<Longrightarrow> P (s\<lparr>remaining_erase_sector := r, next_erase_sector := n\<rparr>)"
    and ws: "\<And>s c err. P s \<Longrightarrow> c \<le> remaining s \<Longrightarrow> c \<noteq> 0
        \<Longrightarrow> err = last_error s \<or> err = ESP_FAILED_SPI_OP
        \<Longrightarrow> P (s\<lparr>last_error := err, next_write := next_write s + c,
                   remaining := remaining s - c\<rparr>)"
    and p: "P s" and r: "handle_flash_data len h s = Some (h', s')"
  shows "P s'"
proof -
  let ?c = "min len (remaining s)"
  from handle_flash_data_Some [OF r] show ?thesis
  proof (elim disjE conjE exE)
    assume "s' = s"
    with p show ?thesis by simp
  next
    fix h1 s1 h2 res
    assume c0: "?c \<noteq> 0"
      and el: "erase_loop ((next_write s + ?c) div FLASH_SECTOR_SIZE) h s = Some (h1, s1)"
      and s': "s' = s1\<lparr> last_error := (if res \<noteq> 0 then ESP_FAILED_SPI_OP else last_error s),
                 next_write := next_write s + ?c, remaining := remaining s - ?c \<rparr>"
    from erase_loop_frame [OF el] obtain r n
      where f: "s1 = s\<lparr>remaining_erase_sector := r, next_erase_sector := n\<rparr>" by blast
    with fr [OF p] have p1: "P s1" by simp
    have c: "?c \<le> remaining s1" using f by simp
    have "P (s1\<lparr>last_error := (if res \<noteq> 0 then ESP_FAILED_SPI_OP else last_error s),
        next_write := next_write s1 + ?c, remaining := remaining s1 - ?c\<rparr>)"
      by (rule ws [OF p1 c c0]) (simp add: f)
    with s' f show ?thesis by simp
  qed
qed

lemma handle_flash_encrypt_data_preserves:
  assumes fr: "\<And>s r n. P s \<Longrightarrow> P (s\<lparr>remaining_erase_sector := r, next_erase_sector := n\<rparr>)"
    and ws: "\<And>s c err. P s \<Longrightarrow> c \<le> remaining s \<Longrightarrow> c \<noteq> 0
        \<Longrightarrow> err = last_error s \<or> err = ESP_FAILED_SPI_OP
        \<Longrightarrow> P (s\<lparr>last_error := err, next_write := next_write s + c,
                   remaining := remaining s - c\<rparr>)"
    and p: "P s" and r: "handle_flash_encrypt_data len h s = Some (h', s')"
  shows "P s'"
proof -
  let ?c = "min len (remaining s)"
  from handle_flash_encrypt_data_Some [OF r] show ?thesis
  proof (elim disjE conjE exE)
    assume "s' = s"
    with p show ?thesis by simp
  next
    fix h0 h1 s1 h2 h3 res
    assume c0: "?c \<noteq> 0"
      and el: "erase_loop ((next_write s + ?c) div FLASH_SECTOR_SIZE) h0 s = Some (h1, s1)"
      and s': "s' = s1\<lparr> last_error := (if res \<noteq> 0 then ESP_FAILED_SPI_OP else last_error s),
                 next_write := next_write s + ?c, remaining := remaining s - ?c \<rparr>"
    from erase_loop_frame [OF el] obtain r n
      where f: "s1 = s\<lparr>remaining_erase_sector := r, next_erase_sector := n\<rparr>" by blast
    with fr [OF p] have p1: "P s1" by simp
    have c: "?c \<le> remaining s1" using f by simp
    have "P (s1\<lparr>last_error := (if res \<noteq> 0 then ESP_FAILED_SPI_OP else last_error s),
        next_write := next_write s1 + ?c, remaining := remaining s1 - ?c\<rparr>)"
      by (rule ws [OF p1 c c0]) (simp add: f)
    with s' f show ?thesis by simp
  qed
qed

lemma handle_flash_deflated_data_preserves:
  assumes e: "\<And>h s h' s'. P s \<Longrightarrow> start_next_erase h s = Some (h', s') \<Longrightarrow> P s'"
    and d: "\<And>len h s h' s'. P s \<Longrightarrow> handle_flash_data len h s = Some (h', s') \<Longrightarrow> P s'"
    and u: "\<And>s i rc no. P s \<Longrightarrow> P (s\<lparr>inflator := i, remaining_compressed := rc, next_out := no\<rparr>)"
    and z: "\<And>s. P s \<Longrightarrow> P (s\<lparr>next_out := 0\<rparr>)"
    and l: "\<And>s err. P s \<Longrightarrow> err \<noteq> ESP_OK \<Longrightarrow> P (s\<lparr>last_error := err\<rparr>)"
    and p: "P s" and r: "handle_flash_deflated_data len h s = Some (h', s')"
  shows "P s'"
proof -
  from r obtain st s1 where
    a: "deflate_loop len TINFL_STATUS_NEEDS_MORE_INPUT h s = Some (st, h', s1)"
    and s': "s' = s1 \<or> s' = s1\<lparr>last_error := ESP_INFLATE_ERROR\<rparr>
        \<or> s' = s1\<lparr>last_error := ESP_NOT_ENOUGH_DATA\<rparr>
        \<or> s' = s1\<lparr>last_error := ESP_TOO_MUCH_DATA\<rparr>"
    by (auto simp: handle_flash_deflated_data_def Let_def split: option.splits if_splits)
  have p1: "P s1"
  proof (rule deflate_loop_preserves [where P = P, OF _ _ _ _ p a])
    show "\<And>h s h' s'. P s \<Longrightarrow> start_next_erase h s = Some (h', s') \<Longrightarrow> P s'"
      by (rule e)
    show "\<And>len h s h' s'. P s \<Longrightarrow> handle_flash_data len h s = Some (h', s') \<Longrightarrow> P s'"
      by (rule d)
    show "\<And>s i rc no. P s
        \<Longrightarrow> P (s\<lparr>inflator := i, remaining_compressed := rc, next_out := no\<rparr>)"
      by (rule u)
    show "\<And>s. P s \<Longrightarrow> P (s\<lparr>next_out := 0\<rparr>)" by (rule z)
  qed
  from s' l [OF p1] show ?thesis using p1 by auto
qed

text \<open>A property that ignores the erase counters, the decompressor state and which
  error is latched, and that survives a write step, holds along the whole data phase.\<close>

lemma data_call_preserves:
  assumes fr: "\<And>s r n. P s \<Longrightarrow> P (s\<lparr>remaining_erase_sector := r, next_erase_sector := n\<rparr>)"
    and ws: "\<And>s c err. P s \<Longrightarrow> c \<le> remaining s \<Longrightarrow> c \<noteq> 0
        \<Longrightarrow> err = last_error s \<or> err = ESP_FAILED_SPI_OP
        \<Longrightarrow> P (s\<lparr>last_error := err, next_write := next_write s + c,
                   remaining := remaining s - c\<rparr>)"
    and u: "\<And>s i rc no. P s \<Longrightarrow> P (s\<lparr>inflator := i, remaining_compressed := rc, next_out := no\<rparr>)"
    and l: "\<And>s err. P s \<Longrightarrow> err \<noteq> ESP_OK \<Longrightarrow> P (s\<lparr>last_error := err\<rparr>)"
    and p: "P s" and r: "data_call c h s = Some (h', s')"
  shows "P s'"
proof -
  have d: "\<And>len h s h' s'. P s \<Longrightarrow> handle_flash_data len h s = Some (h', s') \<Longrightarrow> P s'"
  proof -
    fix len h s h' s'
    assume "P s" and "handle_flash_data len h s = Some (h', s')"
    then show "P s'"
    proof (rule handle_flash_data_preserves [where P = P, rotated 2])
      show "\<And>s r n. P s \<Longrightarrow> P (s\<lparr>remaining_erase_sector := r, next_erase_sector := n\<rparr>)"
        by (rule fr)
      show "\<And>s c err. P s \<Longrightarrow> c \<le> remaining s \<Longrightarrow> c \<noteq> 0
        \<Longrightarrow> err = last_error s \<or> err = ESP_FAILED_SPI_OP
        \<Longrightarrow> P (s\<lparr>last_error := err, next_write := next_write s + c,
                   remaining := remaining s - c\<rparr>)"
        by (rule ws)
    qed
  qed
  have n: "\<And>len h s h' s'. P s \<Longrightarrow> handle_flash_encrypt_data len h s = Some (h', s') \<Longrightarrow> P s'"
  proof -
    fix len h s h' s'
    assume "P s" and "handle_flash_encrypt_data len h s = Some (h', s')"
    then show "P s'"
    proof (rule handle_flash_encrypt_data_preserves [where P = P, rotated 2])
      show "\<And>s r n. P s \<Longrightarrow> P (s\<lparr>remaining_erase_sector := r, next_erase_sector := n\<rparr>)"
        by (rule fr)
      show "\<And>s c err. P s \<Longrightarrow> c \<le> remaining s \<Longrightarrow> c \<noteq> 0
        \<Longrightarrow> err = last_error s \<or> err = ESP_FAILED_SPI_OP
        \<Longrightarrow> P (s\<lparr>last_error := err, next_write := next_write s + c,
                   remaining := remaining s - c\<rparr>)"
        by (rule ws)
    qed
  qed
  have e: "\<And>h s h' s'. P s \<Longrightarrow> start_next_erase h s = Some (h', s') \<Longrightarrow> P s'"
  proof -
    fix h s h' s'
    assume ps: "P s" and "start_next_erase h s = Some (h', s')"
    from start_next_erase_frame [OF this(2)] obtain r n
      where "s' = s\<lparr>remaining_erase_sector := r, next_erase_sector := n\<rparr>" by blast
    with fr [OF ps] show "P s'" by simp
  qed
  have z: "\<And>s. P s \<Longrightarrow> P (s\<lparr>next_out := 0\<rparr>)"
  proof -
    fix s assume "P s"
    from u [OF this, where i = "inflator s" and rc = "remaining_compressed s" and no = 0]
    show "P (s\<lparr>next_out := 0\<rparr>)" by simp
  qed
  show ?thesis
  proof (cases c)
    case (Flash_data len)
    with r d [OF p] show ?thesis by simp
  next
    case (Flash_encrypt_data len)
    with r n [OF p] show ?thesis by simp
  next
    case (Flash_deflated_data len)
    with r have dd: "handle_flash_deflated_data len h s = Some (h', s')" by simp
    show ?thesis
    proof (rule handle_flash_deflated_data_preserves [where P = P, OF _ _ _ _ _ p dd])
      show "\<And>h s h' s'. P s \<Longrightarrow> start_next_erase h s = Some (h', s') \<Longrightarrow> P s'"
        by (rule e)
      show "\<And>len h s h' s'. P s \<Longrightarrow> handle_flash_data len h s = Some (h', s') \<Longrightarrow> P s'"
        by (rule d)
      show "\<And>s i rc no. P s
          \<Longrightarrow> P (s\<lparr>inflator := i, remaining_compressed := rc, next_out := no\<rparr>)"
        by (rule u)
      show "\<And>s. P s \<Longrightarrow> P (s\<lparr>next_out := 0\<rparr>)" by (rule z)
      show "\<And>s err. P s \<Longrightarrow> err \<noteq> ESP_OK \<Longrightarrow> P (s\<lparr>last_error := err\<rparr>)"
        by (rule l)
    qed
  qed
qed

lemma data_phase_preserves:
  assumes step: "\<And>c h s h' s'. P s \<Longrightarrow> data_call c h s = Some (h', s') \<Longrightarrow> P s'"
  shows "P s \<Longrightarrow> data_phase cs h s = Some (h', s') \<Longrightarrow> P s'"
proof (induction cs arbitrary: h s)
  case Nil
  then show ?case by simp
next
  case (Cons c cs)
  from Cons.prems(2) obtain h1 s1 where a: "data_call c h s = Some (h1, s1)"
    and b: "data_phase cs h1 s1 = Some (h', s')"
    by (auto split: option.splits)
  from step [OF Cons.prems(1) a] have "P s1" .
  from Cons.IH [OF this b] show ?case .
qed

subsection \<open>C10: the write cursor plus the bytes remaining\<close>

lemma data_call_sum:
  assumes "data_call c h s = Some (h', s')"
  shows "next_write s' + remaining s' = next_write s + remaining s"
  by (rule data_call_preserves
      [where P = "\<lambda>t. next_write t + remaining t = next_write s + remaining s", OF _ _ _ _ _ assms])
    simp_all

lemma write_step_unat:
  fixes nw rem c :: uint32_t
  assumes "unat nw + unat rem = k" and "k < 2 ^ 32" and "c \<le> rem"
  shows "unat (nw + c) + unat (rem - c) = k"
proof -
  from assms(3) have cu: "unat c \<le> unat rem" by (simp add: word_le_nat_alt)
  with assms(1,2) have "unat nw + unat c < 2 ^ LENGTH(32)" by simp
  then have "unat (nw + c) = unat nw + unat c" by (rule unat_add_lem [THEN iffD1])
  moreover from assms(3) have "unat (rem - c) = unat rem - unat c" by (rule unat_sub)
  ultimately show ?thesis using cu assms(1) by simp
qed

lemma data_call_unat_sum:
  assumes "data_call c h s = Some (h', s')"
    and "unat (next_write s) + unat (remaining s) = k" and "k < 2 ^ 32"
  shows "unat (next_write s') + unat (remaining s') = k"
  by (rule data_call_preserves
      [where P = "\<lambda>t. unat (next_write t) + unat (remaining t) = k", OF _ _ _ _ assms(2,1)])
    (simp_all add: write_step_unat [OF _ assms(3)])

text \<open>
  C10. In the 32-bit arithmetic of the source, \<open>handle_flash_begin total_size offset\<close>
  makes \<open>next_write + remaining\<close> equal to \<open>offset + total_size\<close>, whatever it returns;
  each of \<open>handle_flash_data\<close>, \<open>handle_flash_encrypt_data\<close> and
  \<open>handle_flash_deflated_data\<close> leaves \<open>next_write + remaining\<close> as it was, so it advances
  \<open>next_write\<close> by what it takes from \<open>remaining\<close>; hence after any data phase the sum is
  still \<open>offset + total_size\<close>, and once \<open>remaining\<close> is 0 the cursor is at
  \<open>offset + total_size\<close>. Where \<open>offset + total_size\<close> stays below \<open>2^32\<close> the same holds
  of the values as natural numbers.
\<close>

theorem next_write_plus_remaining:
  "(handle_flash_begin total_size offset h0 s0 = Some (e, h1, s1) \<longrightarrow>
      next_write s1 + remaining s1 = offset + total_size) \<and>
   (handle_flash_data len h s = Some (h', s') \<longrightarrow>
      next_write s' + remaining s' = next_write s + remaining s
      \<and> next_write s' - next_write s = remaining s - remaining s') \<and>
   (handle_flash_encrypt_data len h s = Some (h', s') \<longrightarrow>
      next_write s' + remaining s' = next_write s + remaining s
      \<and> next_write s' - next_write s = remaining s - remaining s') \<and>
   (handle_flash_deflated_data len h s = Some (h', s') \<longrightarrow>
      next_write s' + remaining s' = next_write s + remaining s
      \<and> next_write s' - next_write s = remaining s - remaining s') \<and>
   (handle_flash_begin total_size offset h0 s0 = Some (e, h1, s1)
      \<and> data_phase cs h1 s1 = Some (h2, s2) \<longrightarrow>
      next_write s2 + remaining s2 = offset + total_size
      \<and> (remaining s2 = 0 \<longrightarrow> next_write s2 = offset + total_size)
      \<and> (unat offset + unat total_size < 2 ^ 32 \<longrightarrow>
           unat (next_write s2) + unat (remaining s2) = unat offset + unat total_size))"
proof (intro conjI impI)
  assume b: "handle_flash_begin total_size offset h0 s0 = Some (e, h1, s1)"
  then show "next_write s1 + remaining s1 = offset + total_size"
    by (auto simp: handle_flash_begin_def Let_def split: option.splits if_splits)
next
  assume "handle_flash_data len h s = Some (h', s')"
  then have "data_call (Flash_data len) h s = Some (h', s')" by simp
  from data_call_sum [OF this]
  show "next_write s' + remaining s' = next_write s + remaining s" .
  then show "next_write s' - next_write s = remaining s - remaining s'"
    by (simp add: algebra_simps)
next
  assume "handle_flash_encrypt_data len h s = Some (h', s')"
  then have "data_call (Flash_encrypt_data len) h s = Some (h', s')" by simp
  from data_call_sum [OF this]
  show "next_write s' + remaining s' = next_write s + remaining s" .
  then show "next_write s' - next_write s = remaining s - remaining s'"
    by (simp add: algebra_simps)
next
  assume "handle_flash_deflated_data len h s = Some (h', s')"
  then have "data_call (Flash_deflated_data len) h s = Some (h', s')" by simp
  from data_call_sum [OF this]
  show "next_write s' + remaining s' = next_write s + remaining s" .
  then show "next_write s' - next_write s = remaining s - remaining s'"
    by (simp add: algebra_simps)
next
  assume a: "handle_flash_begin total_size offset h0 s0 = Some (e, h1, s1)
      \<and> data_phase cs h1 s1 = Some (h2, s2)"
  then have s1: "next_write s1 = offset" "remaining s1 = total_size"
    by (auto simp: handle_flash_begin_def Let_def split: option.splits if_splits)
  from a have dp: "data_phase cs h1 s1 = Some (h2, s2)" by simp
  have "next_write s1 + remaining s1 = offset + total_size" using s1 by simp
  then show sum: "next_write s2 + remaining s2 = offset + total_size"
    by (rule data_phase_preserves
        [where P = "\<lambda>t. next_write t + remaining t = offset + total_size", rotated 1, OF _ dp])
      (simp add: data_call_sum)
  { assume "remaining s2 = 0"
    with sum show "next_write s2 = offset + total_size" by simp }
  { assume lt: "unat offset + unat total_size < 2 ^ 32"
    have "unat (next_write s1) + unat (remaining s1) = unat offset + unat total_size"
      using s1 by simp
    then show "unat (next_write s2) + unat (remaining s2) = unat offset + unat total_size"
      by (rule data_phase_preserves
          [where P = "\<lambda>t. unat (next_write t) + unat (remaining t)
              = unat offset + unat total_size", rotated 1, OF _ dp])
        (rule data_call_unat_sum [OF _ _ lt]) }
qed

theorem next_write_plus_remaining_witness:
  "handle_flash_begin 100 0 (example_device [True, True, True, True, True] [0, 0] []) fs_init
     = Some (ESP_OK,
         (example_device [True, True, True, True] [0, 0] [])
           \<lparr>trace := [Write_enable, Write_status 0]\<rparr>,
         session_100)
   \<and> handle_flash_data 40 (example_device [True, True, True] [0] []) session_100
     = Some ((example_device [] [] [])
           \<lparr>trace := [Write_enable, Erase SPI_FLASH_SE 0, Program 0 40]\<rparr>,
         session_100\<lparr>next_write := 40, next_erase_sector := 1, remaining := 60,
           remaining_erase_sector := 0\<rparr>)
   \<and> handle_flash_encrypt_data 40 (example_device [True, True, True] [0] []) session_100
     = Some ((example_device [] [] [])
           \<lparr>trace := [Write_enable, Erase SPI_FLASH_SE 0, Program_encrypted 0 40]\<rparr>,
         session_100\<lparr>next_write := 40, next_erase_sector := 1, remaining := 60,
           remaining_erase_sector := 0\<rparr>)
   \<and> handle_flash_deflated_data 10 (example_device [True, True, True] [0] [(0, 10, 40, 5)])
         (session_100\<lparr>remaining_compressed := 10\<rparr>)
     = Some ((example_device [] [] [])
           \<lparr>trace := [Write_enable, Erase SPI_FLASH_SE 0, Inflate 10 32768 1, Program 0 40]\<rparr>,
         session_100\<lparr>next_write := 40, next_erase_sector := 1, remaining := 60,
           remaining_erase_sector := 0, last_error := ESP_NOT_ENOUGH_DATA, inflator := 5\<rparr>)
   \<and> data_phase [Flash_data 40, Flash_data 4096]
         ((example_device [True, True, True, True] [0, 0] [])
           \<lparr>trace := [Write_enable, Write_status 0]\<rparr>) session_100
     = Some ((example_device [] [] [])
           \<lparr>trace := [Write_enable, Write_status 0, Write_enable, Erase SPI_FLASH_SE 0,
              Program 0 40, Program 40 60]\<rparr>,
         session_100\<lparr>next_write := 100, next_erase_sector := 1, remaining := 0,
           remaining_erase_sector := 0\<rparr>)
   \<and> remaining (session_100\<lparr>next_write := 100, next_erase_sector := 1, remaining := 0,
           remaining_erase_sector := 0\<rparr>) = 0
   \<and> unat (0 :: uint32_t) + unat (100 :: uint32_t) < 2 ^ 32
   \<and> next_write (session_100\<lparr>next_write := 100, next_erase_sector := 1, remaining := 0,
           remaining_erase_sector := 0\<rparr>) = 0 + 100"
  using next_write_plus_remaining [of 100 0
      "example_device [True, True, True, True, True] [0, 0] []" fs_init ESP_OK
      "(example_device [True, True, True, True] [0, 0] [])
           \<lparr>trace := [Write_enable, Write_status 0]\<rparr>"
      session_100 40 "example_device [True, True, True] [0] []" session_100
      "(example_device [] [] [])
           \<lparr>trace := [Write_enable, Erase SPI_FLASH_SE 0, Program 0 40]\<rparr>"
      "session_100\<lparr>next_write := 40, next_erase_sector := 1, remaining := 60,
           remaining_erase_sector := 0\<rparr>"
      "[Flash_data 40, Flash_data 4096]"
      "(example_device [] [] [])
           \<lparr>trace := [Write_enable, Write_status 0, Write_enable, Erase SPI_FLASH_SE 0,
              Program 0 40, Program 40 60]\<rparr>"
      "session_100\<lparr>next_write := 100, next_erase_sector := 1, remaining := 0,
           remaining_erase_sector := 0\<rparr>"]
    next_write_plus_remaining [of _ _ _ _ _ _ _ 40 "example_device [True, True, True] [0] []"
      session_100
      "(example_device [] [] [])
           \<lparr>trace := [Write_enable, Erase SPI_FLASH_SE 0, Program_encrypted 0 40]\<rparr>"
      "session_100\<lparr>next_write := 40, next_erase_sector := 1, remaining := 60,
           remaining_erase_sector := 0\<rparr>"]
    next_write_plus_remaining [of _ _ _ _ _ _ _ 10
      "example_device [True, True, True] [0] [(0, 10, 40, 5)]"
      "session_100\<lparr>remaining_compressed := 10\<rparr>"
      "(example_device [] [] [])
           \<lparr>trace := [Write_enable, Erase SPI_FLASH_SE 0, Inflate 10 32768 1, Program 0 40]\<rparr>"
      "session_100\<lparr>next_write := 40, next_erase_sector := 1, remaining := 60,
           remaining_erase_sector := 0, last_error := ESP_NOT_ENOUGH_DATA, inflator := 5\<rparr>"]
  by (simp add: run_defs)

subsection \<open>C8: the terminal conditions of \<open>handle_flash_deflated_data\<close>\<close>

text \<open>
  C8 as stated fails: the three conditions are not mutually exclusive. In a session that
  expects 4 more bytes, a call whose inflate answer is an error status (\<open>-1\<close>) together
  with 4 output bytes flushes them, so \<open>remaining\<close> is 0 when the loop ends: the status is
  below \<open>TINFL_STATUS_DONE\<close> and it differs from \<open>TINFL_STATUS_DONE\<close> with nothing
  remaining. Both assignments run, and the sticky error ends as \<open>ESP_TOO_MUCH_DATA\<close>.
\<close>

theorem inflate_error_and_too_much_data:
  "deflate_loop 10 TINFL_STATUS_NEEDS_MORE_INPUT
       (example_device [True, True, True] [0] [(- 1, 10, 4, 5)]) session_4
     = Some (- 1,
         (example_device [] [] [])
           \<lparr>trace := [Write_enable, Erase SPI_FLASH_SE 0, Inflate 10 32768 1, Program 0 4]\<rparr>,
         session_4\<lparr>next_write := 4, next_erase_sector := 1, remaining := 0,
           remaining_erase_sector := 0, inflator := 5, remaining_compressed := 0\<rparr>)
   \<and> (- 1 < TINFL_STATUS_DONE)
   \<and> (- 1 \<noteq> TINFL_STATUS_DONE
        \<and> remaining (session_4\<lparr>next_write := 4, next_erase_sector := 1, remaining := 0,
              remaining_erase_sector := 0, inflator := 5, remaining_compressed := 0\<rparr>) = 0)
   \<and> handle_flash_deflated_data 10
       (example_device [True, True, True] [0] [(- 1, 10, 4, 5)]) session_4
     = Some ((example_device [] [] [])
           \<lparr>trace := [Write_enable, Erase SPI_FLASH_SE 0, Inflate 10 32768 1, Program 0 4]\<rparr>,
         session_4\<lparr>next_write := 4, next_erase_sector := 1, remaining := 0,
           remaining_erase_sector := 0, inflator := 5, remaining_compressed := 0,
           last_error := ESP_TOO_MUCH_DATA\<rparr>)"
  by (simp add: run_defs session_4_def)

text \<open>
  C8, amended. After a call of \<open>handle_flash_deflated_data\<close>, with \<open>status\<close> the engine's
  status when the loop ends: "finished with plain bytes still expected"
  (\<open>ESP_NOT_ENOUGH_DATA\<close>) excludes each of the other two conditions, but an inflate error
  and "not finished with no plain bytes expected" can hold together. The sticky error is
  then \<open>ESP_TOO_MUCH_DATA\<close>: it is \<open>ESP_TOO_MUCH_DATA\<close> whenever the status is not
  \<open>TINFL_STATUS_DONE\<close> and nothing remains, else \<open>ESP_NOT_ENOUGH_DATA\<close> when the status is
  \<open>TINFL_STATUS_DONE\<close> and bytes remain, else \<open>ESP_INFLATE_ERROR\<close> when the status is an
  error, else what it was when the loop ended.
\<close>

theorem deflated_terminal_errors:
  assumes "handle_flash_deflated_data len h s = Some (h', s')"
  shows "\<exists>status s1.
      deflate_loop len TINFL_STATUS_NEEDS_MORE_INPUT h s = Some (status, h', s1)
      \<and> s' = s1\<lparr>last_error :=
            (if status \<noteq> TINFL_STATUS_DONE \<and> remaining s1 = 0 then ESP_TOO_MUCH_DATA
             else if status = TINFL_STATUS_DONE \<and> 0 < remaining s1 then ESP_NOT_ENOUGH_DATA
             else if status < TINFL_STATUS_DONE then ESP_INFLATE_ERROR
             else last_error s1)\<rparr>
      \<and> \<not> ((status = TINFL_STATUS_DONE \<and> 0 < remaining s1) \<and> status < TINFL_STATUS_DONE)
      \<and> \<not> ((status = TINFL_STATUS_DONE \<and> 0 < remaining s1)
            \<and> (status \<noteq> TINFL_STATUS_DONE \<and> remaining s1 = 0))"
proof -
  from assms obtain status s1 where
    a: "deflate_loop len TINFL_STATUS_NEEDS_MORE_INPUT h s = Some (status, h', s1)"
    and b: "s' = (let s2 = (if status < TINFL_STATUS_DONE
                     then s1\<lparr>last_error := ESP_INFLATE_ERROR\<rparr> else s1);
               s3 = (if status = TINFL_STATUS_DONE \<and> 0 < remaining s2
                     then s2\<lparr>last_error := ESP_NOT_ENOUGH_DATA\<rparr> else s2)
           in (if status \<noteq> TINFL_STATUS_DONE \<and> remaining s3 = 0
                     then s3\<lparr>last_error := ESP_TOO_MUCH_DATA\<rparr> else s3))"
    by (auto simp: handle_flash_deflated_data_def Let_def split: option.splits)
  have "s' = s1\<lparr>last_error :=
            (if status \<noteq> TINFL_STATUS_DONE \<and> remaining s1 = 0 then ESP_TOO_MUCH_DATA
             else if status = TINFL_STATUS_DONE \<and> 0 < remaining s1 then ESP_NOT_ENOUGH_DATA
             else if status < TINFL_STATUS_DONE then ESP_INFLATE_ERROR
             else last_error s1)\<rparr>"
    unfolding b by (simp add: Let_def)
  with a show ?thesis by auto
qed

theorem deflated_terminal_errors_witness:
  "handle_flash_deflated_data 10 (example_device [True, True, True] [0] [(0, 10, 40, 5)])
         (session_100\<lparr>remaining_compressed := 10\<rparr>)
     = Some ((example_device [] [] [])
           \<lparr>trace := [Write_enable, Erase SPI_FLASH_SE 0, Inflate 10 32768 1, Program 0 40]\<rparr>,
         session_100\<lparr>next_write := 40, next_erase_sector := 1, remaining := 60,
           remaining_erase_sector := 0, last_error := ESP_NOT_ENOUGH_DATA, inflator := 5\<rparr>)"
  using deflated_terminal_errors [of 10 "example_device [True, True, True] [0] [(0, 10, 40, 5)]"
      "session_100\<lparr>remaining_compressed := 10\<rparr>"
      "(example_device [] [] [])
           \<lparr>trace := [Write_enable, Erase SPI_FLASH_SE 0, Inflate 10 32768 1, Program 0 40]\<rparr>"
      "session_100\<lparr>next_write := 40, next_erase_sector := 1, remaining := 60,
           remaining_erase_sector := 0, last_error := ESP_NOT_ENOUGH_DATA, inflator := 5\<rparr>"]
  by (simp add: run_defs)

subsection \<open>C6: the sticky error\<close>

text \<open>
  C6 as stated fails: a later data call can overwrite the latched error. In a deflated
  session of 4 bytes the first packet decompresses to the 4 bytes and completes the stream,
  the program primitive fails, and \<open>ESP_FAILED_SPI_OP\<close> is latched. One more packet finds
  nothing remaining and a status that is not \<open>TINFL_STATUS_DONE\<close>, and replaces the error
  by \<open>ESP_TOO_MUCH_DATA\<close>, which is what the end returns.
\<close>

theorem later_call_overwrites_error:
  "last_error session_4 = ESP_OK
   \<and> handle_flash_deflated_data 10
       (example_device [True, True, True] [1] [(0, 10, 4, 5)]) session_4
     = Some ((example_device [] [] [])
           \<lparr>trace := [Write_enable, Erase SPI_FLASH_SE 0, Inflate 10 32768 1, Program 0 4]\<rparr>,
         session_4\<lparr>next_write := 4, next_erase_sector := 1, remaining := 0,
           remaining_erase_sector := 0, inflator := 5, remaining_compressed := 0,
           last_error := ESP_FAILED_SPI_OP\<rparr>)
   \<and> handle_flash_deflated_data 1
       ((example_device [] [] [])
           \<lparr>trace := [Write_enable, Erase SPI_FLASH_SE 0, Inflate 10 32768 1, Program 0 4]\<rparr>)
       (session_4\<lparr>next_write := 4, next_erase_sector := 1, remaining := 0,
           remaining_erase_sector := 0, inflator := 5, remaining_compressed := 0,
           last_error := ESP_FAILED_SPI_OP\<rparr>)
     = Some ((example_device [] [] [])
           \<lparr>trace := [Write_enable, Erase SPI_FLASH_SE 0, Inflate 10 32768 1, Program 0 4]\<rparr>,
         session_4\<lparr>next_write := 4, next_erase_sector := 1, remaining := 0,
           remaining_erase_sector := 0, inflator := 5, remaining_compressed := 0,
           last_error := ESP_TOO_MUCH_DATA\<rparr>)
   \<and> fst (handle_flash_end
         (session_4\<lparr>next_write := 4, next_erase_sector := 1, remaining := 0,
           remaining_erase_sector := 0, inflator := 5, remaining_compressed := 0,
           last_error := ESP_TOO_MUCH_DATA\<rparr>)) = ESP_TOO_MUCH_DATA"
  by (simp add: run_defs session_4_def handle_flash_end_def)

lemma data_call_keeps_error:
  assumes "data_call c h s = Some (h', s')" and "last_error s \<noteq> ESP_OK"
  shows "last_error s' \<noteq> ESP_OK"
  by (rule data_call_preserves
      [where P = "\<lambda>t. last_error t \<noteq> ESP_OK", OF _ _ _ _ assms(2,1)])
    auto

text \<open>The program primitive takes the next recorded result, whatever the erase loop did
  before; its failure is what a plain or encrypted data call latches.\<close>

lemma start_next_erase_program_results:
  "start_next_erase h s = Some (h', s') \<Longrightarrow> program_results h' = program_results h"
  by (auto simp: start_next_erase_def spiflash_is_ready_def spi_write_enable_def
        wait_spiflash_ready_def Let_def
      split: list.splits option.splits if_splits)

lemma erase_loop_program_results:
  "erase_loop last_sector h s = Some (h', s') \<Longrightarrow> program_results h' = program_results h"
proof (induction last_sector h s rule: erase_loop.induct)
  case (1 last_sector h s)
  show ?case
  proof (cases "0 < sint (remaining_erase_sector s)
      \<and> sint (next_erase_sector s) \<le> sint last_sector")
    case True
    with "1.prems" obtain h1 s1 where a: "start_next_erase h s = Some (h1, s1)"
      and b: "erase_loop last_sector h1 s1 = Some (h', s')"
      by (subst (asm) erase_loop.simps) (auto split: option.splits)
    from "1.IH" [OF True a refl b] start_next_erase_program_results [OF a]
    show ?thesis by simp
  next
    case False
    with "1.prems" show ?thesis
      by (subst (asm) erase_loop.simps) auto
  qed
qed

lemma handle_flash_data_latches:
  assumes r: "handle_flash_data len h s = Some (h', s')"
    and c: "min len (remaining s) \<noteq> 0"
    and p: "program_results h = res # rs"
  shows "last_error s' = (if res \<noteq> 0 then ESP_FAILED_SPI_OP else last_error s)"
proof -
  from handle_flash_data_Some [OF r] c obtain h1 s1 h2 res' where
    e: "erase_loop ((next_write s + min len (remaining s)) div FLASH_SECTOR_SIZE) h s
          = Some (h1, s1)"
    and w: "wait_spiflash_ready h1 = Some h2"
    and sp: "SPIWrite (next_write s) (min len (remaining s)) h2 = Some (res', h')"
    and s': "s' = s1\<lparr> last_error := (if res' \<noteq> 0 then ESP_FAILED_SPI_OP else last_error s),
                 next_write := next_write s + min len (remaining s),
                 remaining := remaining s - min len (remaining s) \<rparr>"
    by blast
  from w have "program_results h2 = program_results h1"
    by (auto simp: wait_spiflash_ready_def split: option.splits)
  with erase_loop_program_results [OF e] p have "program_results h2 = res # rs" by simp
  with sp have "res' = res" by (simp add: SPIWrite_def)
  with s' show ?thesis by simp
qed

lemma handle_flash_encrypt_data_latches:
  assumes r: "handle_flash_encrypt_data len h0 s = Some (h', s')"
    and c: "min len (remaining s) \<noteq> 0"
    and p: "program_results h0 = res # rs"
  shows "last_error s' = (if res \<noteq> 0 then ESP_FAILED_SPI_OP else last_error s)"
proof -
  define h where "h = (if target h0 = ESP32S2_OR_LATER
      then h0\<lparr>trace := trace h0 @ [Encrypt_enable]\<rparr> else h0)"
  have ph: "program_results h = res # rs" using p by (simp add: h_def)
  have cl: "(if remaining s < len then remaining s else len) = min len (remaining s)"
    by (auto simp: min_def)
  from r c cl obtain h1 s1 h2 h3 res' where
    e: "erase_loop ((next_write s + min len (remaining s)) div FLASH_SECTOR_SIZE) h s
          = Some (h1, s1)"
    and w: "wait_spiflash_ready h1 = Some h2"
    and sp: "SPI_Encrypt_Write (next_write s1) (min len (remaining s)) h2 = Some (res', h3)"
    and s': "last_error s' = (if res' \<noteq> 0 then ESP_FAILED_SPI_OP else last_error s1)"
    by (auto simp: handle_flash_encrypt_data_def Let_def h_def
        split: option.splits prod.splits if_splits)
  from erase_loop_frame [OF e] have le: "last_error s1 = last_error s" by auto
  from w have "program_results h2 = program_results h1"
    by (auto simp: wait_spiflash_ready_def split: option.splits)
  with erase_loop_program_results [OF e] ph have "program_results h2 = res # rs" by simp
  with sp have "res' = res" by (simp add: SPI_Encrypt_Write_def)
  with s' le show ?thesis by simp
qed

lemma handle_flash_deflated_data_error:
  assumes "handle_flash_deflated_data len h s = Some (h', s')"
  shows "\<exists>status s1.
      deflate_loop len TINFL_STATUS_NEEDS_MORE_INPUT h s = Some (status, h', s1)
      \<and> last_error s' =
            (if status \<noteq> TINFL_STATUS_DONE \<and> remaining s1 = 0 then ESP_TOO_MUCH_DATA
             else if status = TINFL_STATUS_DONE \<and> 0 < remaining s1 then ESP_NOT_ENOUGH_DATA
             else if status < TINFL_STATUS_DONE then ESP_INFLATE_ERROR
             else last_error s1)"
proof -
  from assms obtain status s1 where
    a: "deflate_loop len TINFL_STATUS_NEEDS_MORE_INPUT h s = Some (status, h', s1)"
    and b: "s' = (let s2 = (if status < TINFL_STATUS_DONE
                     then s1\<lparr>last_error := ESP_INFLATE_ERROR\<rparr> else s1);
               s3 = (if status = TINFL_STATUS_DONE \<and> 0 < remaining s2
                     then s2\<lparr>last_error := ESP_NOT_ENOUGH_DATA\<rparr> else s2)
           in (if status \<noteq> TINFL_STATUS_DONE \<and> remaining s3 = 0
                     then s3\<lparr>last_error := ESP_TOO_MUCH_DATA\<rparr> else s3))"
    by (auto simp: handle_flash_deflated_data_def Let_def split: option.splits)
  have "last_error s' =
            (if status \<noteq> TINFL_STATUS_DONE \<and> remaining s1 = 0 then ESP_TOO_MUCH_DATA
             else if status = TINFL_STATUS_DONE \<and> 0 < remaining s1 then ESP_NOT_ENOUGH_DATA
             else if status < TINFL_STATUS_DONE then ESP_INFLATE_ERROR
             else last_error s1)"
    unfolding b by (simp add: Let_def)
  with a show ?thesis by blast
qed

text \<open>
  C6, amended. Every failure of a data-phase operation latches an error: in a plain or
  encrypted data call with a nonzero clamped length a failing program primitive sets
  \<open>last_error\<close> to \<open>ESP_FAILED_SPI_OP\<close> and a succeeding one leaves it as it was, and
  \<open>handle_flash_deflated_data\<close> sets it by its terminal conditions. No later data-phase
  call clears a latched error: \<open>last_error\<close> stays different from \<open>ESP_OK\<close> until the next
  begin, though a later failure may replace the code. A plain or encrypted data call keeps
  a latched \<open>ESP_FAILED_SPI_OP\<close> as it is. Data calls still advance \<open>next_write\<close> and
  reduce \<open>remaining\<close> by the clamped length, whether or not their program primitive fails.
  The end of a complete session returns the error latched last, and \<open>get_flash_error\<close>
  reports the same value.
\<close>

theorem sticky_error_stays_set:
  "(min len (remaining s) \<noteq> 0 \<and> program_results h = res # rs
      \<and> (handle_flash_data len h s = Some (h', s')
           \<or> handle_flash_encrypt_data len h s = Some (h', s')) \<longrightarrow>
      last_error s' = (if res \<noteq> 0 then ESP_FAILED_SPI_OP else last_error s)) \<and>
   (handle_flash_deflated_data len h s = Some (h', s') \<longrightarrow>
      (\<exists>status s1.
         deflate_loop len TINFL_STATUS_NEEDS_MORE_INPUT h s = Some (status, h', s1)
         \<and> last_error s' =
            (if status \<noteq> TINFL_STATUS_DONE \<and> remaining s1 = 0 then ESP_TOO_MUCH_DATA
             else if status = TINFL_STATUS_DONE \<and> 0 < remaining s1 then ESP_NOT_ENOUGH_DATA
             else if status < TINFL_STATUS_DONE then ESP_INFLATE_ERROR
             else last_error s1))) \<and>
   (last_error s \<noteq> ESP_OK \<and> data_phase cs h s = Some (h', s') \<longrightarrow> last_error s' \<noteq> ESP_OK) \<and>
   (last_error s = ESP_FAILED_SPI_OP
      \<and> (handle_flash_data len h s = Some (h', s')
           \<or> handle_flash_encrypt_data len h s = Some (h', s')) \<longrightarrow>
      last_error s' = ESP_FAILED_SPI_OP) \<and>
   (handle_flash_data len h s = Some (h', s')
      \<or> handle_flash_encrypt_data len h s = Some (h', s') \<longrightarrow>
      next_write s' = next_write s + min len (remaining s)
      \<and> remaining s' = remaining s - min len (remaining s)) \<and>
   (in_flash_mode s \<and> remaining s = 0 \<longrightarrow>
      fst (handle_flash_end s) = last_error s
      \<and> get_flash_error (snd (handle_flash_end s)) = fst (handle_flash_end s))"
proof (intro conjI impI)
  assume a: "min len (remaining s) \<noteq> 0 \<and> program_results h = res # rs
      \<and> (handle_flash_data len h s = Some (h', s')
           \<or> handle_flash_encrypt_data len h s = Some (h', s'))"
  then have c: "min len (remaining s) \<noteq> 0" and p: "program_results h = res # rs"
    by simp_all
  from a have "handle_flash_data len h s = Some (h', s')
           \<or> handle_flash_encrypt_data len h s = Some (h', s')" by simp
  then show "last_error s' = (if res \<noteq> 0 then ESP_FAILED_SPI_OP else last_error s)"
  proof
    assume "handle_flash_data len h s = Some (h', s')"
    then show ?thesis using c p by (rule handle_flash_data_latches)
  next
    assume "handle_flash_encrypt_data len h s = Some (h', s')"
    then show ?thesis using c p by (rule handle_flash_encrypt_data_latches)
  qed
next
  assume "handle_flash_deflated_data len h s = Some (h', s')"
  then show "\<exists>status s1.
         deflate_loop len TINFL_STATUS_NEEDS_MORE_INPUT h s = Some (status, h', s1)
         \<and> last_error s' =
            (if status \<noteq> TINFL_STATUS_DONE \<and> remaining s1 = 0 then ESP_TOO_MUCH_DATA
             else if status = TINFL_STATUS_DONE \<and> 0 < remaining s1 then ESP_NOT_ENOUGH_DATA
             else if status < TINFL_STATUS_DONE then ESP_INFLATE_ERROR
             else last_error s1)"
    by (rule handle_flash_deflated_data_error)
next
  assume a: "last_error s \<noteq> ESP_OK \<and> data_phase cs h s = Some (h', s')"
  then have p: "last_error s \<noteq> ESP_OK" and dp: "data_phase cs h s = Some (h', s')"
    by simp_all
  from p show "last_error s' \<noteq> ESP_OK"
    by (rule data_phase_preserves
        [where P = "\<lambda>t. last_error t \<noteq> ESP_OK", rotated 1, OF _ dp])
      (rule data_call_keeps_error)
next
  assume a: "last_error s = ESP_FAILED_SPI_OP
      \<and> (handle_flash_data len h s = Some (h', s')
           \<or> handle_flash_encrypt_data len h s = Some (h', s'))"
  then have p: "last_error s = ESP_FAILED_SPI_OP" by simp
  from a have "handle_flash_data len h s = Some (h', s')
           \<or> handle_flash_encrypt_data len h s = Some (h', s')" by simp
  then show "last_error s' = ESP_FAILED_SPI_OP"
  proof
    assume r: "handle_flash_data len h s = Some (h', s')"
    show ?thesis
      by (rule handle_flash_data_preserves
          [where P = "\<lambda>t. last_error t = ESP_FAILED_SPI_OP", OF _ _ p r]) auto
  next
    assume r: "handle_flash_encrypt_data len h s = Some (h', s')"
    show ?thesis
      by (rule handle_flash_encrypt_data_preserves
          [where P = "\<lambda>t. last_error t = ESP_FAILED_SPI_OP", OF _ _ p r]) auto
  qed
next
  assume "handle_flash_data len h s = Some (h', s')
      \<or> handle_flash_encrypt_data len h s = Some (h', s')"
  then have "next_write s' = next_write s + min len (remaining s)
      \<and> remaining s' = remaining s - min len (remaining s)"
  proof
    assume r: "handle_flash_data len h s = Some (h', s')"
    from handle_flash_data_Some [OF r] show ?thesis by auto
  next
    assume r: "handle_flash_encrypt_data len h s = Some (h', s')"
    from handle_flash_encrypt_data_Some [OF r] show ?thesis by auto
  qed
  then show "next_write s' = next_write s + min len (remaining s)"
    and "remaining s' = remaining s - min len (remaining s)" by simp_all
next
  assume a: "in_flash_mode s \<and> remaining s = 0"
  then show "fst (handle_flash_end s) = last_error s"
    by (simp add: handle_flash_end_def)
  from a show "get_flash_error (snd (handle_flash_end s)) = fst (handle_flash_end s)"
    by (simp add: handle_flash_end_def get_flash_error_def)
qed

theorem sticky_error_stays_set_witness:
  "handle_flash_begin 10 0 (example_device [True, True, True, True] [1] []) fs_init
     = Some (ESP_OK,
         (example_device [True, True, True] [1] [])\<lparr>trace := [Write_enable, Write_status 0]\<rparr>,
         session_10)
   \<and> last_error session_10 = ESP_OK
   \<and> min 10 (remaining session_10) \<noteq> 0
   \<and> program_results
         ((example_device [True, True, True] [1] [])\<lparr>trace := [Write_enable, Write_status 0]\<rparr>)
       = 1 # []
   \<and> handle_flash_data 10
       ((example_device [True, True, True] [1] [])\<lparr>trace := [Write_enable, Write_status 0]\<rparr>)
       session_10
     = Some ((example_device [] [] [])
           \<lparr>trace := [Write_enable, Write_status 0, Write_enable, Erase SPI_FLASH_SE 0,
              Program 0 10]\<rparr>,
         session_10\<lparr>next_write := 10, next_erase_sector := 1, remaining := 0,
           remaining_erase_sector := 0, last_error := ESP_FAILED_SPI_OP\<rparr>)
   \<and> in_flash_mode (session_10\<lparr>next_write := 10, next_erase_sector := 1, remaining := 0,
           remaining_erase_sector := 0, last_error := ESP_FAILED_SPI_OP\<rparr>)
   \<and> remaining (session_10\<lparr>next_write := 10, next_erase_sector := 1, remaining := 0,
           remaining_erase_sector := 0, last_error := ESP_FAILED_SPI_OP\<rparr>) = 0
   \<and> handle_flash_end (session_10\<lparr>next_write := 10, next_erase_sector := 1,
           remaining := 0, remaining_erase_sector := 0, last_error := ESP_FAILED_SPI_OP\<rparr>)
       = (ESP_FAILED_SPI_OP,
          session_10\<lparr>in_flash_mode := False, next_write := 10, next_erase_sector := 1,
           remaining := 0, remaining_erase_sector := 0, last_error := ESP_FAILED_SPI_OP\<rparr>)
   \<and> get_flash_error
         (session_10\<lparr>in_flash_mode := False, next_write := 10, next_erase_sector := 1,
           remaining := 0, remaining_erase_sector := 0, last_error := ESP_FAILED_SPI_OP\<rparr>)
       = ESP_FAILED_SPI_OP
   \<and> handle_flash_encrypt_data 40 (example_device [True, True, True] [1] []) session_100
     = Some ((example_device [] [] [])
           \<lparr>trace := [Write_enable, Erase SPI_FLASH_SE 0, Program_encrypted 0 40]\<rparr>,
         session_100\<lparr>next_write := 40, next_erase_sector := 1, remaining := 60,
           remaining_erase_sector := 0, last_error := ESP_FAILED_SPI_OP\<rparr>)
   \<and> last_error (session_100\<lparr>next_write := 40, next_erase_sector := 1, remaining := 60,
       remaining_erase_sector := 0, last_error := ESP_FAILED_SPI_OP\<rparr>) = ESP_FAILED_SPI_OP
   \<and> ESP_FAILED_SPI_OP \<noteq> ESP_OK
   \<and> handle_flash_data 4096 (example_device [True] [0] [])
       (session_100\<lparr>next_write := 40, next_erase_sector := 1, remaining := 60,
          remaining_erase_sector := 0, last_error := ESP_FAILED_SPI_OP\<rparr>)
     = Some ((example_device [] [] [])\<lparr>trace := [Program 40 60]\<rparr>,
         session_100\<lparr>next_write := 100, next_erase_sector := 1, remaining := 0,
           remaining_erase_sector := 0, last_error := ESP_FAILED_SPI_OP\<rparr>)
   \<and> data_phase [Flash_data 4096] (example_device [True] [0] [])
       (session_100\<lparr>next_write := 40, next_erase_sector := 1, remaining := 60,
          remaining_erase_sector := 0, last_error := ESP_FAILED_SPI_OP\<rparr>)
     = Some ((example_device [] [] [])\<lparr>trace := [Program 40 60]\<rparr>,
         session_100\<lparr>next_write := 100, next_erase_sector := 1, remaining := 0,
           remaining_erase_sector := 0, last_error := ESP_FAILED_SPI_OP\<rparr>)
   \<and> handle_flash_deflated_data 10
       (example_device [True, True, True] [0] [(- 1, 10, 40, 5)])
       (session_100\<lparr>remaining_compressed := 10\<rparr>)
     = Some ((example_device [] [] [])
           \<lparr>trace := [Write_enable, Erase SPI_FLASH_SE 0, Inflate 10 32768 1, Program 0 40]\<rparr>,
         session_100\<lparr>next_write := 40, next_erase_sector := 1, remaining := 60,
           remaining_erase_sector := 0, last_error := ESP_INFLATE_ERROR, inflator := 5\<rparr>)"
  using sticky_error_stays_set [where s = session_10 and len = 10
      and h = "(example_device [True, True, True] [1] [])
          \<lparr>trace := [Write_enable, Write_status 0]\<rparr>"
      and res = 1 and rs = "[]" and cs = "[]"
      and h' = "(example_device [] [] [])
           \<lparr>trace := [Write_enable, Write_status 0, Write_enable, Erase SPI_FLASH_SE 0,
              Program 0 10]\<rparr>"
      and s' = "session_10\<lparr>next_write := 10, next_erase_sector := 1, remaining := 0,
           remaining_erase_sector := 0, last_error := ESP_FAILED_SPI_OP\<rparr>"]
    sticky_error_stays_set [where
      s = "session_10\<lparr>next_write := 10, next_erase_sector := 1, remaining := 0,
           remaining_erase_sector := 0, last_error := ESP_FAILED_SPI_OP\<rparr>"
      and len = 0 and h = "example_device [] [] []" and res = 0 and rs = "[]" and cs = "[]"
      and h' = "example_device [] [] []"
      and s' = "session_10\<lparr>next_write := 10, next_erase_sector := 1, remaining := 0,
           remaining_erase_sector := 0, last_error := ESP_FAILED_SPI_OP\<rparr>"]
    sticky_error_stays_set [where s = session_100 and len = 40
      and h = "example_device [True, True, True] [1] []"
      and res = 1 and rs = "[]" and cs = "[]"
      and h' = "(example_device [] [] [])
           \<lparr>trace := [Write_enable, Erase SPI_FLASH_SE 0, Program_encrypted 0 40]\<rparr>"
      and s' = "session_100\<lparr>next_write := 40, next_erase_sector := 1, remaining := 60,
           remaining_erase_sector := 0, last_error := ESP_FAILED_SPI_OP\<rparr>"]
    sticky_error_stays_set [where
      s = "session_100\<lparr>next_write := 40, next_erase_sector := 1, remaining := 60,
          remaining_erase_sector := 0, last_error := ESP_FAILED_SPI_OP\<rparr>"
      and cs = "[Flash_data 4096]" and len = 4096 and res = 0 and rs = "[]"
      and h = "example_device [True] [0] []"
      and h' = "(example_device [] [] [])\<lparr>trace := [Program 40 60]\<rparr>"
      and s' = "session_100\<lparr>next_write := 100, next_erase_sector := 1, remaining := 0,
           remaining_erase_sector := 0, last_error := ESP_FAILED_SPI_OP\<rparr>"]
    sticky_error_stays_set [where s = "session_100\<lparr>remaining_compressed := 10\<rparr>"
      and len = 10 and res = 0 and rs = "[]" and cs = "[]"
      and h = "example_device [True, True, True] [0] [(- 1, 10, 40, 5)]"
      and h' = "(example_device [] [] [])
           \<lparr>trace := [Write_enable, Erase SPI_FLASH_SE 0, Inflate 10 32768 1, Program 0 40]\<rparr>"
      and s' = "session_100\<lparr>next_write := 40, next_erase_sector := 1, remaining := 60,
           remaining_erase_sector := 0, last_error := ESP_INFLATE_ERROR, inflator := 5\<rparr>"]
  by (simp add: run_defs session_10_def handle_flash_end_def get_flash_error_def)

subsection \<open>C9: the decompressor state at \<open>handle_flash_deflated_begin\<close>\<close>

text \<open>What \<open>handle_flash_deflated_begin\<close> does to the decompressor state, for every input:
  it resets the inflator, stores the compressed size and leaves \<open>next_out\<close> alone.\<close>

lemma handle_flash_deflated_begin_state:
  assumes "handle_flash_deflated_begin uncompressed_size compressed_size offset h s
      = Some (e, h1, s1)"
  shows "inflator s1 = 0" and "remaining_compressed s1 = compressed_size"
    and "next_out s1 = next_out s"
  using assms
  by (auto simp: handle_flash_deflated_begin_def handle_flash_begin_def Let_def
      split: option.splits if_splits)

text \<open>
  C9 fails on the code. \<open>handle_flash_deflated_begin\<close> resets the inflator and
  \<open>remaining_compressed\<close>, but the fill offset \<open>next_out\<close> is a static local of
  \<open>handle_flash_deflated_data\<close>, reset only after a flush. A first session whose only packet
  leaves 40 decompressed bytes in the buffer (status "needs more input") and is then
  abandoned leaves \<open>next_out\<close> at 40; the begin of the next session resets the inflator and
  \<open>remaining_compressed\<close> and starts with the fill offset still at 40.
\<close>

theorem deflated_begin_keeps_fill_offset:
  "handle_flash_deflated_begin 100 10 0 (example_device [True, True, True, True] [] [(1, 10, 40, 5)])
       fs_init
     = Some (ESP_OK,
         (example_device [True, True, True] [] [(1, 10, 40, 5)])
           \<lparr>trace := [Write_enable, Write_status 0]\<rparr>,
         session_100\<lparr>remaining_compressed := 10\<rparr>)
   \<and> handle_flash_deflated_data 10
       ((example_device [True, True, True] [] [(1, 10, 40, 5)])
           \<lparr>trace := [Write_enable, Write_status 0]\<rparr>)
       (session_100\<lparr>remaining_compressed := 10\<rparr>)
     = Some ((example_device [True] [] [])
           \<lparr>trace := [Write_enable, Write_status 0, Write_enable, Erase SPI_FLASH_SE 0,
              Inflate 10 32768 1]\<rparr>,
         session_100\<lparr>next_erase_sector := 1, remaining_erase_sector := 0, inflator := 5,
           next_out := 40\<rparr>)
   \<and> handle_flash_deflated_begin 200 20 0
       ((example_device [True] [] [])
           \<lparr>trace := [Write_enable, Write_status 0, Write_enable, Erase SPI_FLASH_SE 0,
              Inflate 10 32768 1]\<rparr>)
       (session_100\<lparr>next_erase_sector := 1, remaining_erase_sector := 0, inflator := 5,
           next_out := 40\<rparr>)
     = Some (ESP_OK,
         (example_device [] [] [])
           \<lparr>trace := [Write_enable, Write_status 0, Write_enable, Erase SPI_FLASH_SE 0,
              Inflate 10 32768 1, Write_enable, Write_status 0]\<rparr>,
         fs_init\<lparr>in_flash_mode := True, remaining := 200, remaining_erase_sector := 1,
           remaining_compressed := 20, next_out := 40\<rparr>)
   \<and> next_out (fs_init\<lparr>in_flash_mode := True, remaining := 200, remaining_erase_sector := 1,
           remaining_compressed := 20, next_out := 40\<rparr>) \<noteq> 0"
  by (simp add: run_defs)

subsection \<open>C1: the erase frontier covers the write\<close>

lemma handle_flash_data_erase_inv:
  assumes "handle_flash_data len h s = Some (h', s')" and "erase_inv E s" and "E < 2 ^ 30"
  shows "erase_inv E s'"
  using handle_flash_data_Some [OF assms(1)]
proof (elim disjE conjE exE)
  assume "s' = s"
  with assms(2) show ?thesis by simp
next
  fix h1 s1 h2 res
  assume el: "erase_loop ((next_write s + min len (remaining s)) div FLASH_SECTOR_SIZE) h s
      = Some (h1, s1)"
    and s': "s' = s1\<lparr> last_error := (if res \<noteq> 0 then ESP_FAILED_SPI_OP else last_error s),
                 next_write := next_write s + min len (remaining s),
                 remaining := remaining s - min len (remaining s) \<rparr>"
  from erase_loop_inv [OF el assms(2,3)] s' show ?thesis
    by (simp add: erase_inv_def)
qed

lemma handle_flash_encrypt_data_erase_inv:
  assumes "handle_flash_encrypt_data len h s = Some (h', s')" and "erase_inv E s"
    and "E < 2 ^ 30"
  shows "erase_inv E s'"
  using handle_flash_encrypt_data_Some [OF assms(1)]
proof (elim disjE conjE exE)
  assume "s' = s"
  with assms(2) show ?thesis by simp
next
  fix h0 h1 s1 h2 h3 res
  assume el: "erase_loop ((next_write s + min len (remaining s)) div FLASH_SECTOR_SIZE) h0 s
      = Some (h1, s1)"
    and s': "s' = s1\<lparr> last_error := (if res \<noteq> 0 then ESP_FAILED_SPI_OP else last_error s),
                 next_write := next_write s + min len (remaining s),
                 remaining := remaining s - min len (remaining s) \<rparr>"
  from erase_loop_inv [OF el assms(2,3)] s' show ?thesis
    by (simp add: erase_inv_def)
qed

lemma data_call_erase_inv:
  assumes r: "data_call c h s = Some (h', s')" and p: "erase_inv E s" and b: "E < 2 ^ 30"
  shows "erase_inv E s'"
proof (cases c)
  case (Flash_data len)
  with r handle_flash_data_erase_inv [OF _ p b] show ?thesis by simp
next
  case (Flash_encrypt_data len)
  with r handle_flash_encrypt_data_erase_inv [OF _ p b] show ?thesis by simp
next
  case (Flash_deflated_data len)
  with r have dd: "handle_flash_deflated_data len h s = Some (h', s')" by simp
  show ?thesis
  proof (rule handle_flash_deflated_data_preserves [where P = "erase_inv E", OF _ _ _ _ _ p dd])
    show "\<And>h s h' s'. erase_inv E s \<Longrightarrow> start_next_erase h s = Some (h', s')
        \<Longrightarrow> erase_inv E s'"
      by (rule start_next_erase_inv [OF _ _ b])
    show "\<And>len h s h' s'. erase_inv E s \<Longrightarrow> handle_flash_data len h s = Some (h', s')
        \<Longrightarrow> erase_inv E s'"
      by (rule handle_flash_data_erase_inv [OF _ _ b])
  qed (simp_all add: erase_inv_def)
qed

lemma data_call_sess_inv:
  assumes r: "data_call c h s = Some (h', s')" and p: "sess_inv ofs tot s"
    and nw: "no_wrap ofs tot"
  shows "sess_inv ofs tot s'"
proof -
  from p have a: "unat (next_write s) + unat (remaining s) = ofs + tot"
    and e: "erase_inv (int (erase_total ofs tot)) s" by (auto simp: sess_inv_def)
  from nw have "ofs + tot < 2 ^ 32" by (simp add: no_wrap_def)
  from data_call_unat_sum [OF r a this] data_call_erase_inv [OF r e erase_total_bound [OF nw]]
  show ?thesis by (simp add: sess_inv_def)
qed

text \<open>
  C1 as stated fails for a session whose begin arithmetic wraps. After
  \<open>handle_flash_begin 0xFFFFFFFF 0\<close> the sector count is 0, so no write ever erases: after
  a first write of 5000 bytes the erase loop of a second one returns at once with
  \<open>remaining_erase_sector = 0\<close> and the frontier \<open>next_erase_sector * FLASH_SECTOR_SIZE = 0\<close>
  below \<open>next_write = 5000\<close>, and the program primitive is issued at 5000. Likewise
  after \<open>handle_flash_begin 0x1000 0xFFFFF800\<close>, where the region runs past \<open>2^32\<close>: the
  last sector of the first write is computed from a wrapped sum as 0, the erase loop does
  nothing, and the frontier \<open>0xFFFFF000\<close> is below \<open>next_write = 0xFFFFF800\<close>.
\<close>

theorem wrapped_session_writes_past_frontier:
  "handle_flash_begin 0xFFFFFFFF 0 (example_device [True, True, True] [0, 0] []) fs_init
     = Some (ESP_OK,
         (example_device [True, True] [0, 0] [])\<lparr>trace := [Write_enable, Write_status 0]\<rparr>,
         fs_init\<lparr>in_flash_mode := True, remaining := 0xFFFFFFFF\<rparr>)
   \<and> data_phase [Flash_data 5000]
       ((example_device [True, True] [0, 0] [])\<lparr>trace := [Write_enable, Write_status 0]\<rparr>)
       (fs_init\<lparr>in_flash_mode := True, remaining := 0xFFFFFFFF\<rparr>)
     = Some ((example_device [True] [0] [])
           \<lparr>trace := [Write_enable, Write_status 0, Program 0 5000]\<rparr>,
         fs_init\<lparr>in_flash_mode := True, next_write := 5000, remaining := 0xFFFFEC77\<rparr>)
   \<and> in_flash_mode (fs_init\<lparr>in_flash_mode := True, next_write := 5000, remaining := 0xFFFFEC77\<rparr>)
   \<and> min 5000 (remaining
         (fs_init\<lparr>in_flash_mode := True, next_write := 5000, remaining := 0xFFFFEC77\<rparr>)) = 5000
   \<and> erase_loop ((5000 + 5000) div FLASH_SECTOR_SIZE)
       ((example_device [True] [0] [])
           \<lparr>trace := [Write_enable, Write_status 0, Program 0 5000]\<rparr>)
       (fs_init\<lparr>in_flash_mode := True, next_write := 5000, remaining := 0xFFFFEC77\<rparr>)
     = Some ((example_device [True] [0] [])
           \<lparr>trace := [Write_enable, Write_status 0, Program 0 5000]\<rparr>,
         fs_init\<lparr>in_flash_mode := True, next_write := 5000, remaining := 0xFFFFEC77\<rparr>)
   \<and> sint (next_erase_sector
         (fs_init\<lparr>in_flash_mode := True, next_write := 5000, remaining := 0xFFFFEC77\<rparr>))
         * sint FLASH_SECTOR_SIZE
       < uint (next_write
         (fs_init\<lparr>in_flash_mode := True, next_write := 5000, remaining := 0xFFFFEC77\<rparr>))
   \<and> handle_flash_data 5000
       ((example_device [True] [0] [])
           \<lparr>trace := [Write_enable, Write_status 0, Program 0 5000]\<rparr>)
       (fs_init\<lparr>in_flash_mode := True, next_write := 5000, remaining := 0xFFFFEC77\<rparr>)
     = Some ((example_device [] [] [])
           \<lparr>trace := [Write_enable, Write_status 0, Program 0 5000, Program 5000 5000]\<rparr>,
         fs_init\<lparr>in_flash_mode := True, next_write := 10000, remaining := 0xFFFFD8EF\<rparr>)
   \<and> handle_flash_begin 0x1000 0xFFFFF800 (example_device [True, True] [0] []) fs_init
     = Some (ESP_OK,
         (example_device [True] [0] [])\<lparr>trace := [Write_enable, Write_status 0]\<rparr>,
         fs_init\<lparr>in_flash_mode := True, next_write := 0xFFFFF800,
           next_erase_sector := 0xFFFFF, remaining := 0x1000, remaining_erase_sector := 2\<rparr>)
   \<and> min 0x1000 (remaining
         (fs_init\<lparr>in_flash_mode := True, next_write := 0xFFFFF800,
           next_erase_sector := 0xFFFFF, remaining := 0x1000, remaining_erase_sector := 2\<rparr>))
       = 0x1000
   \<and> erase_loop ((0xFFFFF800 + 0x1000) div FLASH_SECTOR_SIZE)
       ((example_device [True] [0] [])\<lparr>trace := [Write_enable, Write_status 0]\<rparr>)
       (fs_init\<lparr>in_flash_mode := True, next_write := 0xFFFFF800,
           next_erase_sector := 0xFFFFF, remaining := 0x1000, remaining_erase_sector := 2\<rparr>)
     = Some ((example_device [True] [0] [])\<lparr>trace := [Write_enable, Write_status 0]\<rparr>,
         fs_init\<lparr>in_flash_mode := True, next_write := 0xFFFFF800,
           next_erase_sector := 0xFFFFF, remaining := 0x1000, remaining_erase_sector := 2\<rparr>)
   \<and> sint (next_erase_sector
         (fs_init\<lparr>in_flash_mode := True, next_write := 0xFFFFF800,
           next_erase_sector := 0xFFFFF, remaining := 0x1000, remaining_erase_sector := 2\<rparr>))
         * sint FLASH_SECTOR_SIZE
       < uint (next_write
         (fs_init\<lparr>in_flash_mode := True, next_write := 0xFFFFF800,
           next_erase_sector := 0xFFFFF, remaining := 0x1000, remaining_erase_sector := 2\<rparr>))
   \<and> handle_flash_data 0x1000
       ((example_device [True] [0] [])\<lparr>trace := [Write_enable, Write_status 0]\<rparr>)
       (fs_init\<lparr>in_flash_mode := True, next_write := 0xFFFFF800,
           next_erase_sector := 0xFFFFF, remaining := 0x1000, remaining_erase_sector := 2\<rparr>)
     = Some ((example_device [] [] [])
           \<lparr>trace := [Write_enable, Write_status 0, Program 0xFFFFF800 0x1000]\<rparr>,
         fs_init\<lparr>in_flash_mode := True, next_write := 0x800,
           next_erase_sector := 0xFFFFF, remaining := 0, remaining_erase_sector := 2\<rparr>)"
  by (simp add: run_defs)

text \<open>
  C1, amended. In a session begun with \<open>offset + total_size < 2^32\<close> and
  \<open>offset mod FLASH_SECTOR_SIZE + total_size + FLASH_SECTOR_SIZE - 1 < 2^32\<close> (the sums of
  the begin do not wrap), after any data phase, a call of \<open>handle_flash_data\<close> or
  \<open>handle_flash_encrypt_data\<close> with a nonzero clamped length that gets to its result has
  run the erase loop to a state where \<open>remaining_erase_sector\<close> is 0 or \<open>next_erase_sector\<close>
  exceeds the last sector of the write, and where
  \<open>next_erase_sector * FLASH_SECTOR_SIZE\<close> is at least \<open>next_write\<close>, indeed at least the
  end \<open>next_write + length\<close> of the write. The program step leaves the erase counters as
  the loop left them.
\<close>

theorem erase_frontier_covers_write:
  assumes "unat offset + unat total_size < 2 ^ 32"
    and "unat offset mod unat FLASH_SECTOR_SIZE + unat total_size + unat FLASH_SECTOR_SIZE - 1
           < 2 ^ 32"
    and "handle_flash_begin total_size offset h0 s0 = Some (e, h1, s1)"
    and "data_phase cs h1 s1 = Some (h, s)"
    and "min len (remaining s) \<noteq> 0"
    and "handle_flash_data len h s = Some (h', s')
         \<or> handle_flash_encrypt_data len h s = Some (h', s')"
  shows "\<exists>ha hb sb.
      erase_loop ((next_write s + min len (remaining s)) div FLASH_SECTOR_SIZE) ha s
        = Some (hb, sb)
      \<and> next_write sb = next_write s
      \<and> next_erase_sector s' = next_erase_sector sb
      \<and> remaining_erase_sector s' = remaining_erase_sector sb
      \<and> (remaining_erase_sector sb = 0
           \<or> sint ((next_write s + min len (remaining s)) div FLASH_SECTOR_SIZE)
               < sint (next_erase_sector sb))
      \<and> uint (next_write sb) \<le> sint (next_erase_sector sb) * sint FLASH_SECTOR_SIZE
      \<and> uint (next_write s) + uint (min len (remaining s))
           \<le> sint (next_erase_sector sb) * sint FLASH_SECTOR_SIZE"
proof -
  let ?c = "min len (remaining s)"
  let ?last = "(next_write s + ?c) div FLASH_SECTOR_SIZE"
  from assms(1,2) have nw: "no_wrap (unat offset) (unat total_size)"
    by (simp add: no_wrap_def FLASH_SECTOR_SIZE_def)
  from begin_sess_inv [OF assms(3) nw]
  have "sess_inv (unat offset) (unat total_size) s1" .
  then have inv: "sess_inv (unat offset) (unat total_size) s"
    by (rule data_phase_preserves
        [where P = "sess_inv (unat offset) (unat total_size)", rotated 1, OF _ assms(4)])
      (rule data_call_sess_inv [OF _ _ nw])
  have c: "?c \<le> remaining s" by simp
  from assms(6) assms(5) handle_flash_data_Some [of len h s h' s']
    handle_flash_encrypt_data_Some [of len h s h' s']
  obtain ha hb sb err where
    el: "erase_loop ?last ha s = Some (hb, sb)"
    and s': "s' = sb\<lparr> last_error := err, next_write := next_write s + ?c,
                 remaining := remaining s - ?c \<rparr>"
    by blast
  from erase_loop_frame [OF el] have f: "next_write sb = next_write s" by auto
  from erase_loop_frontier [OF inv nw c el]
  have fr: "remaining_erase_sector sb = 0 \<or> sint ?last < sint (next_erase_sector sb)"
    and cov: "int (unat (next_write s) + unat ?c) \<le> sint (next_erase_sector sb) * 4096"
    by simp_all
  have sf: "sint FLASH_SECTOR_SIZE = 4096" by (simp add: FLASH_SECTOR_SIZE_def)
  from cov have cov': "uint (next_write s) + uint ?c
      \<le> sint (next_erase_sector sb) * sint FLASH_SECTOR_SIZE"
    by (simp add: sf)
  moreover have "0 \<le> uint ?c" by simp
  ultimately have "uint (next_write sb) \<le> sint (next_erase_sector sb) * sint FLASH_SECTOR_SIZE"
    unfolding f by linarith
  moreover from s' have "next_erase_sector s' = next_erase_sector sb"
    and "remaining_erase_sector s' = remaining_erase_sector sb" by simp_all
  ultimately have "erase_loop ?last ha s = Some (hb, sb)
      \<and> next_write sb = next_write s
      \<and> next_erase_sector s' = next_erase_sector sb
      \<and> remaining_erase_sector s' = remaining_erase_sector sb
      \<and> (remaining_erase_sector sb = 0 \<or> sint ?last < sint (next_erase_sector sb))
      \<and> uint (next_write sb) \<le> sint (next_erase_sector sb) * sint FLASH_SECTOR_SIZE
      \<and> uint (next_write s) + uint ?c
           \<le> sint (next_erase_sector sb) * sint FLASH_SECTOR_SIZE"
    using el f fr cov' by simp
  then show ?thesis by blast
qed

theorem erase_frontier_covers_write_witness:
  "unat (0 :: uint32_t) + unat (9000 :: uint32_t) < 2 ^ 32
   \<and> unat (0 :: uint32_t) mod unat FLASH_SECTOR_SIZE + unat (9000 :: uint32_t)
         + unat FLASH_SECTOR_SIZE - 1 < 2 ^ 32
   \<and> handle_flash_begin 9000 0
       (example_device [True, True, True, True, True, True, True, True, True] [0, 0] []) fs_init
     = Some (ESP_OK,
         (example_device [True, True, True, True, True, True, True, True] [0, 0] [])
           \<lparr>trace := [Write_enable, Write_status 0]\<rparr>,
         fs_init\<lparr>in_flash_mode := True, remaining := 9000, remaining_erase_sector := 3\<rparr>)
   \<and> data_phase [Flash_data 4000]
       ((example_device [True, True, True, True, True, True, True, True] [0, 0] [])
           \<lparr>trace := [Write_enable, Write_status 0]\<rparr>)
       (fs_init\<lparr>in_flash_mode := True, remaining := 9000, remaining_erase_sector := 3\<rparr>)
     = Some ((example_device [True, True, True, True, True] [0] [])
           \<lparr>trace := [Write_enable, Write_status 0, Write_enable, Erase SPI_FLASH_SE 0,
              Program 0 4000]\<rparr>,
         fs_init\<lparr>in_flash_mode := True, next_write := 4000, next_erase_sector := 1,
           remaining := 5000, remaining_erase_sector := 2\<rparr>)
   \<and> min 5000 (remaining (fs_init\<lparr>in_flash_mode := True, next_write := 4000,
           next_erase_sector := 1, remaining := 5000, remaining_erase_sector := 2\<rparr>)) \<noteq> 0
   \<and> handle_flash_data 5000
       ((example_device [True, True, True, True, True] [0] [])
           \<lparr>trace := [Write_enable, Write_status 0, Write_enable, Erase SPI_FLASH_SE 0,
              Program 0 4000]\<rparr>)
       (fs_init\<lparr>in_flash_mode := True, next_write := 4000, next_erase_sector := 1,
           remaining := 5000, remaining_erase_sector := 2\<rparr>)
     = Some ((example_device [] [] [])
           \<lparr>trace := [Write_enable, Write_status 0, Write_enable, Erase SPI_FLASH_SE 0,
              Program 0 4000, Write_enable, Erase SPI_FLASH_SE 4096,
              Write_enable, Erase SPI_FLASH_SE 8192, Program 4000 5000]\<rparr>,
         fs_init\<lparr>in_flash_mode := True, next_write := 9000, next_erase_sector := 3\<rparr>)
   \<and> handle_flash_encrypt_data 5000
       ((example_device [True, True, True, True, True] [0] [])
           \<lparr>trace := [Write_enable, Write_status 0, Write_enable, Erase SPI_FLASH_SE 0,
              Program 0 4000]\<rparr>)
       (fs_init\<lparr>in_flash_mode := True, next_write := 4000, next_erase_sector := 1,
           remaining := 5000, remaining_erase_sector := 2\<rparr>)
     = Some ((example_device [] [] [])
           \<lparr>trace := [Write_enable, Write_status 0, Write_enable, Erase SPI_FLASH_SE 0,
              Program 0 4000, Write_enable, Erase SPI_FLASH_SE 4096,
              Write_enable, Erase SPI_FLASH_SE 8192, Program_encrypted 4000 5000]\<rparr>,
         fs_init\<lparr>in_flash_mode := True, next_write := 9000, next_erase_sector := 3\<rparr>)
   \<and> (4000 :: int) + 5000
       \<le> sint (next_erase_sector
           (fs_init\<lparr>in_flash_mode := True, next_write := 9000, next_erase_sector := 3\<rparr>))
         * sint FLASH_SECTOR_SIZE"
  using erase_frontier_covers_write [where offset = 0 and total_size = 9000
      and ?h0.0 = "example_device [True, True, True, True, True, True, True, True, True] [0, 0] []"
      and ?s0.0 = fs_init and e = ESP_OK
      and ?h1.0 = "(example_device [True, True, True, True, True, True, True, True] [0, 0] [])
           \<lparr>trace := [Write_enable, Write_status 0]\<rparr>"
      and ?s1.0 = "fs_init\<lparr>in_flash_mode := True, remaining := 9000, remaining_erase_sector := 3\<rparr>"
      and cs = "[Flash_data 4000]"
      and h = "(example_device [True, True, True, True, True] [0] [])
           \<lparr>trace := [Write_enable, Write_status 0, Write_enable, Erase SPI_FLASH_SE 0,
              Program 0 4000]\<rparr>"
      and s = "fs_init\<lparr>in_flash_mode := True, next_write := 4000, next_erase_sector := 1,
           remaining := 5000, remaining_erase_sector := 2\<rparr>"
      and len = 5000
      and h' = "(example_device [] [] [])
           \<lparr>trace := [Write_enable, Write_status 0, Write_enable, Erase SPI_FLASH_SE 0,
              Program 0 4000, Write_enable, Erase SPI_FLASH_SE 4096,
              Write_enable, Erase SPI_FLASH_SE 8192, Program 4000 5000]\<rparr>"
      and s' = "fs_init\<lparr>in_flash_mode := True, next_write := 9000, next_erase_sector := 3\<rparr>"]
    erase_frontier_covers_write [where offset = 0 and total_size = 9000
      and ?h0.0 = "example_device [True, True, True, True, True, True, True, True, True] [0, 0] []"
      and ?s0.0 = fs_init and e = ESP_OK
      and ?h1.0 = "(example_device [True, True, True, True, True, True, True, True] [0, 0] [])
           \<lparr>trace := [Write_enable, Write_status 0]\<rparr>"
      and ?s1.0 = "fs_init\<lparr>in_flash_mode := True, remaining := 9000, remaining_erase_sector := 3\<rparr>"
      and cs = "[Flash_data 4000]"
      and h = "(example_device [True, True, True, True, True] [0] [])
           \<lparr>trace := [Write_enable, Write_status 0, Write_enable, Erase SPI_FLASH_SE 0,
              Program 0 4000]\<rparr>"
      and s = "fs_init\<lparr>in_flash_mode := True, next_write := 4000, next_erase_sector := 1,
           remaining := 5000, remaining_erase_sector := 2\<rparr>"
      and len = 5000
      and h' = "(example_device [] [] [])
           \<lparr>trace := [Write_enable, Write_status 0, Write_enable, Erase SPI_FLASH_SE 0,
              Program 0 4000, Write_enable, Erase SPI_FLASH_SE 4096,
              Write_enable, Erase SPI_FLASH_SE 8192, Program_encrypted 4000 5000]\<rparr>"
      and s' = "fs_init\<lparr>in_flash_mode := True, next_write := 9000, next_erase_sector := 3\<rparr>"]
  by (simp add: run_defs)

end
